theory Spec2Isabelle
  imports Complex_Main "HOL-Library.Multiset"
begin

section \<open>Data model\<close>

text \<open>
  The service exists in two variants in the sources: the full service (OpenAI-compatible
  endpoints, Matryoshka reduction, API key, SSL fallback) and the earlier \<open>src/server.ts\<close>.
  Definitions of the full service keep the source's names; those of \<open>src/server.ts\<close>
  carry the suffix \<open>_v0\<close> where the two differ. A third copy of the server in the sources
  has the service class and the handlers of \<open>src/server.ts\<close> and the \<open>startServer\<close> of the
  full service, so the two models cover it.

  JavaScript numbers are idealised as reals: rounding, overflow and infinities are outside
  the model. The one non-number the code can produce from real inputs, \<open>NaN\<close>
  (from \<open>0 / 0\<close> or from reading past the end of an array), is the value \<open>None\<close>
  of the type \<open>number\<close>.
\<close>

type_synonym vec = "real list"

type_synonym tensor2 = "real list list"

type_synonym number = "real option"

datatype exn = Error string | TypeError string

text \<open>\<open>interface RankingItem { index: number; score: number }\<close>\<close>

record RankingItem =
  index :: nat
  score :: number

text \<open>
  The service object as a request sees it. \<open>initialize_result\<close> is what
  \<open>await this.initialize()\<close> yields (\<open>None\<close>: resolved, \<open>Some e\<close>: rejected with
  \<open>e\<close>); \<open>infer\<close> is the tokenizer call followed by the model call and
  \<open>sentence_embedding.tolist()\<close>, one opaque capability that may throw.
\<close>

record EmbeddingService =
  initialize_result :: "exn option"
  infer :: "string list \<Rightarrow> exn + tensor2"

definition prefix_query :: string where
  "prefix_query = ''task: search result | query: ''"

definition prefix_document :: string where
  "prefix_document = ''title: none | text: ''"

definition MAX_DIMENSIONS :: int where
  "MAX_DIMENSIONS = 768"

section \<open>Reranking\<close>

subsection \<open>Array.prototype.sort\<close>

text \<open>
  \<open>Array.prototype.sort(comparefn)\<close> as the engine of Node.js runs it. A comparator
  result of \<open>NaN\<close> counts as \<open>+0\<close>. An array of fewer than two elements is returned as
  it is. Otherwise the engine takes the longest run at the start of the array that is
  ascending (no comparison of an element with its predecessor is negative) or strictly
  descending (every such comparison is negative), reverses a descending run in place,
  and inserts each remaining element into the sorted front at the position found by
  binary search. For an array of fewer than 64 elements this is the engine's whole
  algorithm, step for step. Longer arrays are cut into such runs that are then merged;
  the result is the same whenever the comparator is consistent, and the model sorts them
  by the same insertion.
\<close>

definition sort_order :: "number \<Rightarrow> real" where
  "sort_order v = (case v of None \<Rightarrow> 0 | Some r \<Rightarrow> r)"

text \<open>
  The loop of the run detection from index \<open>idx\<close>: the index of the first element that
  does not continue the run, which is the length of the run.
\<close>

function run_end :: "('a \<Rightarrow> 'a \<Rightarrow> number) \<Rightarrow> 'a list \<Rightarrow> bool \<Rightarrow> nat \<Rightarrow> nat \<Rightarrow> nat" where
  "run_end comparefn workArray isDescending idx high =
     (if idx < high
      then (let order = sort_order (comparefn (workArray ! idx) (workArray ! (idx - 1)))
            in if isDescending
               then (if 0 \<le> order then idx
                     else run_end comparefn workArray isDescending (Suc idx) high)
               else (if order < 0 then idx
                     else run_end comparefn workArray isDescending (Suc idx) high))
      else idx)"
  by pat_completeness auto
termination
  by (relation "measure (\<lambda>(c, a, d, idx, high). high - idx)") auto

declare run_end.simps [simp del]

text \<open>
  The binary search for the place of \<open>pivot\<close> in the sorted front: \<open>right\<close> moves down
  on a negative comparison, \<open>left\<close> moves up otherwise.
\<close>

function binary_search :: "('a \<Rightarrow> 'a \<Rightarrow> number) \<Rightarrow> 'a \<Rightarrow> 'a list \<Rightarrow> nat \<Rightarrow> nat \<Rightarrow> nat" where
  "binary_search comparefn pivot workArray left right =
     (if left < right
      then (let mid = left + (right - left) div 2
            in if sort_order (comparefn pivot (workArray ! mid)) < 0
               then binary_search comparefn pivot workArray left mid
               else binary_search comparefn pivot workArray (mid + 1) right)
      else left)"
  by pat_completeness auto
termination
  by (relation "measure (\<lambda>(c, p, a, left, right). right - left)") auto

declare binary_search.simps [simp del]

text \<open>
  The insertion loop \<open>for (; start < high; ++start)\<close>: the element at \<open>start\<close> is taken
  out, the elements from \<open>left\<close> to \<open>start - 1\<close> move up by one and the element is put
  at \<open>left\<close>.
\<close>

function binary_insertion_sort :: "('a \<Rightarrow> 'a \<Rightarrow> number) \<Rightarrow> 'a list \<Rightarrow> nat \<Rightarrow> nat \<Rightarrow> 'a list" where
  "binary_insertion_sort comparefn workArray start high =
     (if start < high
      then (let pivot = workArray ! start;
                left = binary_search comparefn pivot workArray 0 start
            in binary_insertion_sort comparefn
                 (take left workArray @ pivot # drop left (take start workArray)
                    @ drop (Suc start) workArray)
                 (Suc start) high)
      else workArray)"
  by pat_completeness auto
termination
  by (relation "measure (\<lambda>(c, a, start, high). high - start)") auto

declare binary_insertion_sort.simps [simp del]

definition array_sort :: "('a \<Rightarrow> 'a \<Rightarrow> number) \<Rightarrow> 'a list \<Rightarrow> 'a list" where
  "array_sort comparefn xs =
     (if length xs < 2 then xs
      else (let isDescending = sort_order (comparefn (xs ! 1) (xs ! 0)) < 0;
                runLength = run_end comparefn xs isDescending 2 (length xs);
                workArray = (if isDescending
                             then rev (take runLength xs) @ drop runLength xs else xs)
            in binary_insertion_sort comparefn workArray runLength (length xs)))"

text \<open>Subtraction of JavaScript numbers: \<open>NaN\<close> is absorbing.\<close>

definition js_sub :: "number \<Rightarrow> number \<Rightarrow> number" where
  "js_sub a b = (case a of None \<Rightarrow> None
                 | Some x \<Rightarrow> (case b of None \<Rightarrow> None | Some y \<Rightarrow> Some (x - y)))"

subsection \<open>The ranking step (both variants)\<close>

text \<open>
  \<open>similarities.map((score, index) => ({ index, score }))
     .sort((a, b) => b.score - a.score)\<close> and then \<open>ranking.map(item => item.index)\<close>.
\<close>

definition with_indices :: "number list \<Rightarrow> RankingItem list" where
  "with_indices similarities =
     map (\<lambda>i. \<lparr>index = i, score = similarities ! i\<rparr>) [0..<length similarities]"

definition by_score_desc :: "RankingItem \<Rightarrow> RankingItem \<Rightarrow> number" where
  "by_score_desc a b = js_sub (score b) (score a)"

definition ranking :: "number list \<Rightarrow> RankingItem list" where
  "ranking similarities = array_sort by_score_desc (with_indices similarities)"

definition ranking_indices :: "number list \<Rightarrow> nat list" where
  "ranking_indices similarities = map index (ranking similarities)"

subsection \<open>Cosine similarity loop of the full service\<close>

text \<open>
  The inner \<open>for (let j = 0; j < queryVector.length; j++)\<close> loop with its three
  accumulators. The loop reads \<open>docVector[j]\<close> for every \<open>j\<close> below the length of the
  query vector; \<open>cosine_loop\<close> is only called where those reads are in range.
\<close>

function cosine_loop :: "vec \<Rightarrow> vec \<Rightarrow> nat \<Rightarrow> real \<times> real \<times> real \<Rightarrow> real \<times> real \<times> real" where
  "cosine_loop queryVector docVector j (dotProduct, queryMagnitude, docMagnitude) =
     (if j < length queryVector
      then cosine_loop queryVector docVector (Suc j)
             (dotProduct + queryVector ! j * docVector ! j,
              queryMagnitude + queryVector ! j * queryVector ! j,
              docMagnitude + docVector ! j * docVector ! j)
      else (dotProduct, queryMagnitude, docMagnitude))"
  by pat_completeness auto
termination
  by (relation "measure (\<lambda>(q, d, j, acc). length q - j)") auto

declare cosine_loop.simps [simp del]

text \<open>
  \<open>dotProduct / (Math.sqrt(queryMagnitude) * Math.sqrt(docMagnitude))\<close>. A document
  vector shorter than the query vector makes \<open>docVector[j]\<close> \<open>undefined\<close> and every
  accumulator it enters \<open>NaN\<close>; a zero denominator comes with a zero dot product and
  \<open>0 / 0\<close> is \<open>NaN\<close>.
\<close>

definition similarity :: "vec \<Rightarrow> vec \<Rightarrow> number" where
  "similarity queryVector docVector =
     (if length docVector < length queryVector then None
      else (case cosine_loop queryVector docVector 0 (0, 0, 0) of
              (dotProduct, queryMagnitude, docMagnitude) \<Rightarrow>
                if sqrt queryMagnitude * sqrt docMagnitude = 0 then None
                else Some (dotProduct / (sqrt queryMagnitude * sqrt docMagnitude))))"

text \<open>
  The array \<open>similarities\<close> of \<open>EmbeddingService.rerank\<close>. With no row in the query
  embedding \<open>queryVector\<close> is \<open>undefined\<close> and \<open>queryVector.length\<close> throws as soon as
  the outer loop has a document to visit.
\<close>

definition rerank_similarities :: "EmbeddingService \<Rightarrow> string \<Rightarrow> string list \<Rightarrow> exn + number list" where
  "rerank_similarities svc query documents =
     (case initialize_result svc of
        Some e \<Rightarrow> Inl e
      | None \<Rightarrow>
          (case infer svc [prefix_query @ query] of
             Inl e \<Rightarrow> Inl e
           | Inr queryEmbedding \<Rightarrow>
               (case infer svc (map (\<lambda>doc. prefix_document @ doc) documents) of
                  Inl e \<Rightarrow> Inl e
                | Inr documentVectors \<Rightarrow>
                    (case queryEmbedding of
                       [] \<Rightarrow> (if documentVectors = [] then Inr []
                              else Inl (TypeError ''Cannot read properties of undefined''))
                     | queryVector # _ \<Rightarrow>
                         Inr (map (similarity queryVector) documentVectors)))))"

definition rerank :: "EmbeddingService \<Rightarrow> string \<Rightarrow> string list \<Rightarrow> exn + nat list" where
  "rerank svc query documents =
     (case rerank_similarities svc query documents of
        Inl e \<Rightarrow> Inl e
      | Inr similarities \<Rightarrow> Inr (ranking_indices similarities))"

subsection \<open>Matrix product scores of \<open>src/server.ts\<close>\<close>

text \<open>
  Tensor operations of the inference library on the nested-list form of a rank-2 tensor:
  \<open>t.transpose(1, 0)\<close> and \<open>matmul(a, b)\<close>.
\<close>

definition ncols :: "tensor2 \<Rightarrow> nat" where
  "ncols t = (case t of [] \<Rightarrow> 0 | r # _ \<Rightarrow> length r)"

definition tensor_transpose :: "tensor2 \<Rightarrow> tensor2" where
  "tensor_transpose t = map (\<lambda>j. map (\<lambda>row. row ! j) t) [0..<ncols t]"

definition matmul :: "tensor2 \<Rightarrow> tensor2 \<Rightarrow> tensor2" where
  "matmul a b =
     map (\<lambda>row. map (\<lambda>j. \<Sum>k\<leftarrow>[0..<length row]. row ! k * b ! k ! j) [0..<ncols b]) a"

text \<open>
  \<open>scores.tolist()[0].slice(1)\<close>: row 0 of the product without its first entry. With no
  row at all \<open>tolist()[0]\<close> is \<open>undefined\<close> and \<open>.slice\<close> throws.
\<close>

definition rerank_similarities_v0 :: "EmbeddingService \<Rightarrow> string \<Rightarrow> string list \<Rightarrow> exn + number list" where
  "rerank_similarities_v0 svc query documents =
     (case initialize_result svc of
        Some e \<Rightarrow> Inl e
      | None \<Rightarrow>
          (let queryText = prefix_query @ query;
               documentTexts = map (\<lambda>doc. prefix_document @ doc) documents;
               allTexts = queryText # documentTexts
           in case infer svc allTexts of
                Inl e \<Rightarrow> Inl e
              | Inr sentence_embedding \<Rightarrow>
                  (case matmul sentence_embedding (tensor_transpose sentence_embedding) of
                     [] \<Rightarrow> Inl (TypeError ''Cannot read properties of undefined'')
                   | row0 # _ \<Rightarrow> Inr (map Some (drop 1 row0)))))"

definition rerank_v0 :: "EmbeddingService \<Rightarrow> string \<Rightarrow> string list \<Rightarrow> exn + nat list" where
  "rerank_v0 svc query documents =
     (case rerank_similarities_v0 svc query documents of
        Inl e \<Rightarrow> Inl e
      | Inr similarities \<Rightarrow> Inr (ranking_indices similarities))"

text \<open>The encoder's contract: \<open>n\<close> rows of \<open>d\<close> numbers each.\<close>

definition is_matrix :: "nat \<Rightarrow> nat \<Rightarrow> tensor2 \<Rightarrow> bool" where
  "is_matrix n d t = (length t = n \<and> list_all (\<lambda>row. length row = d) t)"

subsection \<open>Cosine similarity in the words of the specification\<close>

text \<open>
  The dot product of two vectors divided by the product of their Euclidean norms. These
  three definitions follow the specification, not the source; the source loop is
  \<open>cosine_loop\<close>.
\<close>

definition dot :: "vec \<Rightarrow> vec \<Rightarrow> real" where
  "dot u v = (\<Sum>(a, b)\<leftarrow>zip u v. a * b)"

definition euclidean_norm :: "vec \<Rightarrow> real" where
  "euclidean_norm v = sqrt (\<Sum>a\<leftarrow>v. a * a)"

definition cosine_similarity :: "vec \<Rightarrow> vec \<Rightarrow> real" where
  "cosine_similarity u v = dot u v / (euclidean_norm u * euclidean_norm v)"

section \<open>Embedding pipeline\<close>

subsection \<open>Tensor operations used by the Matryoshka reduction\<close>

text \<open>
  Modelled from the spec: \<open>layer_norm\<close>, \<open>Tensor.slice\<close> and \<open>Tensor.normalize\<close> belong
  to the inference library and are not in the repository. Layer normalisation centres and
  scales each row with the mean and the (population) standard deviation of the whole row;
  \<open>slice(null, [0, n])\<close> keeps the first \<open>n\<close> components of every row (modelled for
  \<open>0 \<le> n\<close>); \<open>normalize(2, -1)\<close> divides every row by its Euclidean norm. A row whose
  norm is zero would be filled with \<open>NaN\<close> by the library; the properties below exclude
  that case by hypothesis.
\<close>

definition mean :: "vec \<Rightarrow> real" where
  "mean row = sum_list row / real (length row)"

definition std :: "vec \<Rightarrow> real" where
  "std row = sqrt ((\<Sum>x\<leftarrow>row. (x - mean row) * (x - mean row)) / real (length row))"

definition layer_norm_eps :: real where
  "layer_norm_eps = 1 / 100000"

definition layer_norm_row :: "vec \<Rightarrow> vec" where
  "layer_norm_row row = map (\<lambda>x. (x - mean row) / (std row + layer_norm_eps)) row"

text \<open>
  The second argument is the \<open>normalized_shape\<close>; the library only checks it against the
  row length, and the call site passes \<open>[embeddings.dims[1]]\<close>.
\<close>

definition layer_norm :: "tensor2 \<Rightarrow> nat list \<Rightarrow> tensor2" where
  "layer_norm t normalized_shape = map layer_norm_row t"

definition slice_cols :: "tensor2 \<Rightarrow> int \<Rightarrow> tensor2" where
  "slice_cols t n = map (take (nat n)) t"

definition normalize_row :: "vec \<Rightarrow> vec" where
  "normalize_row row = map (\<lambda>x. x / euclidean_norm row) row"

definition normalize :: "tensor2 \<Rightarrow> tensor2" where
  "normalize t = map normalize_row t"

subsection \<open>The reduction in the words of the specification\<close>

text \<open>
  Step 1 normalises the full native row, step 2 keeps its first \<open>targetDim\<close> components,
  step 3 rescales the truncated row to unit length. \<open>naive_truncation\<close> is the algorithm
  the specification rules out: the same without step 1.
\<close>

definition reduce_row :: "nat \<Rightarrow> vec \<Rightarrow> vec" where
  "reduce_row targetDim row = normalize_row (take targetDim (layer_norm_row row))"

definition naive_truncation :: "nat \<Rightarrow> vec \<Rightarrow> vec" where
  "naive_truncation targetDim row = normalize_row (take targetDim row)"

subsection \<open>\<open>EmbeddingService.getEmbeddings\<close>\<close>

text \<open>
  JavaScript truthiness of an optional number: \<open>undefined\<close> and \<open>0\<close> are falsy. The
  \<open>dimensions\<close> field is declared \<open>number\<close>; the model covers absent and integer values.
\<close>

definition truthy :: "int option \<Rightarrow> bool" where
  "truthy n = (case n of None \<Rightarrow> False | Some k \<Rightarrow> k \<noteq> 0)"

text \<open>
  The first component of the result lists the batches handed to the tokenizer and the
  model, in order: the inference calls the function has made.
\<close>

definition getEmbeddings :: "EmbeddingService \<Rightarrow> string list \<Rightarrow> int option \<Rightarrow> string list list \<times> (exn + tensor2)" where
  "getEmbeddings svc texts dimensions =
     (case initialize_result svc of
        Some e \<Rightarrow> ([], Inl e)
      | None \<Rightarrow>
          (let processedTexts = map (\<lambda>text. prefix_document @ text) texts
           in case infer svc processedTexts of
                Inl e \<Rightarrow> ([processedTexts], Inl e)
              | Inr embeddings \<Rightarrow>
                  ([processedTexts],
                   Inr (if truthy dimensions \<and> the dimensions < MAX_DIMENSIONS
                        then normalize
                               (slice_cols (layer_norm embeddings [ncols embeddings])
                                  (the dimensions))
                        else embeddings))))"

text \<open>\<open>src/server.ts\<close>: no \<open>dimensions\<close> parameter, no reduction.\<close>

definition getEmbeddings_v0 :: "EmbeddingService \<Rightarrow> string list \<Rightarrow> string list list \<times> (exn + tensor2)" where
  "getEmbeddings_v0 svc texts =
     (case initialize_result svc of
        Some e \<Rightarrow> ([], Inl e)
      | None \<Rightarrow>
          (let processedTexts = map (\<lambda>text. prefix_document @ text) texts
           in case infer svc processedTexts of
                Inl e \<Rightarrow> ([processedTexts], Inl e)
              | Inr embeddings \<Rightarrow> ([processedTexts], Inr embeddings)))"

text \<open>\<open>Math.ceil(text.length / 4)\<close>, summed over the texts.\<close>

definition countTokens :: "string \<Rightarrow> nat" where
  "countTokens text = (length text + 3) div 4"

definition getTotalTokens :: "string list \<Rightarrow> nat" where
  "getTotalTokens texts = foldl (\<lambda>total text. total + countTokens text) 0 texts"

definition MODEL_ID :: string where
  "MODEL_ID = ''embeddinggemma-300m''"

section \<open>HTTP handlers\<close>

datatype input = InputString string | InputArray "string list"

datatype EmbeddingData = EmbeddingData (data_index: nat) (embedding: vec)

text \<open>
  Response bodies: \<open>{error: {type: 'invalid_request_error', message}}\<close>,
  \<open>{error: {type: 'internal_server_error', message}}\<close>, \<open>{error, message}\<close>, \<open>{error}\<close>,
  the OpenAI list \<open>{object: 'list', data, model, usage: {prompt_tokens, total_tokens}}\<close>
  and the legacy \<open>{embeddings, count}\<close>.
\<close>

datatype body =
    InvalidRequestError string
  | InternalServerError string
  | ErrorMessage string string
  | ErrorOnly string
  | EmbeddingsResponse "EmbeddingData list" string nat nat
  | EmbedResponse tensor2 nat

datatype response = Response (status: nat) (body: body)

text \<open>
  The parts of a request the handlers read: the \<open>Authorization\<close> header and the fields of
  the JSON body, each absent (\<open>undefined\<close>) or present.
\<close>

record request =
  authorization :: "string option"
  input :: "input option"
  model :: "string option"
  dimensions :: "int option"
  encoding_format :: "string option"

definition message :: "exn \<Rightarrow> string" where
  "message e = (case e of Error m \<Rightarrow> m | TypeError m \<Rightarrow> m)"

text \<open>\<open>!value\<close> for an optional string and for the \<open>input\<close> field (an array is truthy).\<close>

definition falsy_string :: "string option \<Rightarrow> bool" where
  "falsy_string v = (case v of None \<Rightarrow> True | Some s \<Rightarrow> s = [])"

definition falsy_input :: "input option \<Rightarrow> bool" where
  "falsy_input v = (case v of None \<Rightarrow> True | Some (InputString s) \<Rightarrow> s = []
                     | Some (InputArray xs) \<Rightarrow> False)"

text \<open>\<open>Array.isArray(input) ? input : [input]\<close>\<close>

definition as_texts :: "input \<Rightarrow> string list" where
  "as_texts v = (case v of InputArray xs \<Rightarrow> xs | InputString s \<Rightarrow> [s])"

text \<open>
  The middleware \<open>authenticateApiKey\<close>: \<open>Some r\<close> is the response it sends itself,
  \<open>None\<close> is the call of \<open>next()\<close>.
\<close>

definition authenticateApiKey :: "string option \<Rightarrow> string option \<Rightarrow> response option" where
  "authenticateApiKey API_KEY authHeader =
     (if falsy_string API_KEY
      then Some (Response 500 (ErrorMessage ''Server configuration error''
                                 ''API_KEY environment variable not set''))
      else if falsy_string authHeader
      then Some (Response 401 (ErrorMessage ''Unauthorized''
                                 ''Authorization header is required''))
      else (let token = (if take 7 (the authHeader) = ''Bearer ''
                         then drop 7 (the authHeader) else the authHeader)
            in if token \<noteq> the API_KEY
               then Some (Response 401 (ErrorMessage ''Unauthorized'' ''Invalid API key''))
               else None))"

text \<open>\<open>embeddings.map((embedding, index) => ({object: 'embedding', index, embedding}))\<close>\<close>

definition embeddingData :: "tensor2 \<Rightarrow> EmbeddingData list" where
  "embeddingData embeddings =
     map (\<lambda>i. EmbeddingData i (embeddings ! i)) [0..<length embeddings]"

text \<open>
  \<open>POST /v1/embeddings\<close>. The result pairs the inference calls made with the response
  sent.
\<close>

definition v1_embeddings :: "string option \<Rightarrow> EmbeddingService \<Rightarrow> request \<Rightarrow> string list list \<times> response" where
  "v1_embeddings API_KEY svc req =
     (case authenticateApiKey API_KEY (authorization req) of
        Some denied \<Rightarrow> ([], denied)
      | None \<Rightarrow>
          if falsy_input (input req)
          then ([], Response 400 (InvalidRequestError ''Missing required parameter: input''))
          else if falsy_string (model req)
          then ([], Response 400 (InvalidRequestError ''Missing required parameter: model''))
          else if the (model req) \<noteq> MODEL_ID
          then ([], Response 400 (InvalidRequestError
                  (''Model '' @ [CHR 0x27] @ the (model req) @ [CHR 0x27]
                   @ '' not found. Available models: '' @ MODEL_ID)))
          else if truthy (dimensions req)
                  \<and> (the (dimensions req) < 1 \<or> the (dimensions req) > MAX_DIMENSIONS)
          then ([], Response 400 (InvalidRequestError
                  ''Dimensions must be between 1 and 768. Recommended MRL-trained dimensions: 768 (full), 512, 256, or 128''))
          else if (case encoding_format req of None \<Rightarrow> ''float'' | Some f \<Rightarrow> f) \<noteq> ''float''
          then ([], Response 400 (InvalidRequestError
                  (''Only '' @ [CHR 0x22] @ ''float'' @ [CHR 0x22]
                   @ '' encoding format is currently supported'')))
          else (let texts = as_texts (the (input req))
                in if length texts = 0
                   then ([], Response 400 (InvalidRequestError ''Input array cannot be empty''))
                   else (case getEmbeddings svc texts (dimensions req) of
                           (calls, Inl e) \<Rightarrow>
                             (calls, Response 500 (InternalServerError (message e)))
                         | (calls, Inr embeddings) \<Rightarrow>
                             (let totalTokens = getTotalTokens texts
                              in (calls, Response 200
                                    (EmbeddingsResponse (embeddingData embeddings)
                                       (the (model req)) totalTokens totalTokens))))))"

text \<open>The legacy \<open>POST /embed\<close> of the full service.\<close>

definition embed :: "string option \<Rightarrow> EmbeddingService \<Rightarrow> request \<Rightarrow> string list list \<times> response" where
  "embed API_KEY svc req =
     (case authenticateApiKey API_KEY (authorization req) of
        Some denied \<Rightarrow> ([], denied)
      | None \<Rightarrow>
          if falsy_input (input req)
          then ([], Response 400 (ErrorOnly ''Missing required field: input''))
          else (let texts = as_texts (the (input req))
                in if length texts = 0
                   then ([], Response 400 (ErrorOnly ''Input array cannot be empty''))
                   else (case getEmbeddings svc texts (dimensions req) of
                           (calls, Inl e) \<Rightarrow>
                             (calls, Response 500
                                (ErrorMessage ''Failed to generate embeddings'' (message e)))
                         | (calls, Inr embeddings) \<Rightarrow>
                             (calls, Response 200
                                (EmbedResponse embeddings (length embeddings))))))"

text \<open>\<open>POST /embed\<close> of \<open>src/server.ts\<close>: no authentication, no \<open>dimensions\<close>.\<close>

definition embed_v0 :: "EmbeddingService \<Rightarrow> request \<Rightarrow> string list list \<times> response" where
  "embed_v0 svc req =
     (if falsy_input (input req)
      then ([], Response 400 (ErrorOnly ''Missing required field: input''))
      else (let texts = as_texts (the (input req))
            in if length texts = 0
               then ([], Response 400 (ErrorOnly ''Input array cannot be empty''))
               else (case getEmbeddings_v0 svc texts of
                       (calls, Inl e) \<Rightarrow>
                         (calls, Response 500
                            (ErrorMessage ''Failed to generate embeddings'' (message e)))
                     | (calls, Inr embeddings) \<Rightarrow>
                         (calls, Response 200
                            (EmbedResponse embeddings (length embeddings))))))"

section \<open>Model initialisation\<close>

text \<open>
  \<open>initialize\<close> and \<open>_doInitialize\<close> are the same in both variants. The service object
  is single-threaded: a call runs to its next \<open>await\<close> without interleaving, and the
  awaited library calls settle later as events. Promises are kept in a store and referred
  to by position, so that two callers holding the same promise are told apart from two
  callers holding equal ones. (\<open>initialize\<close> is an \<open>async\<close> function: what a caller
  awaits adopts the state of the promise \<open>initialize\<close> returns, which is the one the
  model hands out.)
\<close>

datatype promise = Pending | Fulfilled | Rejected exn

datatype await_point = AwaitTokenizer | AwaitModel

record lifecycle =
  initPromise :: "nat option"
  isInitialized :: bool
  tokenizerSet :: bool
  modelSet :: bool
  promises :: "promise list"
  running :: "(nat \<times> await_point) list"
  tokenizer_loads :: nat
  model_loads :: nat


text \<open>
  \<open>_doInitialize\<close> up to its first \<open>await\<close>: it returns a new promise, already
  fulfilled if \<open>isInitialized\<close> holds, otherwise pending with the tokenizer load started.
\<close>

definition doInitialize :: "lifecycle \<Rightarrow> lifecycle \<times> nat" where
  "doInitialize s =
     (let p = length (promises s)
      in if isInitialized s
         then (s\<lparr>promises := promises s @ [Fulfilled]\<rparr>, p)
         else (s\<lparr>promises := promises s @ [Pending],
                  running := running s @ [(p, AwaitTokenizer)],
                  tokenizer_loads := tokenizer_loads s + 1\<rparr>, p))"

definition initialize :: "lifecycle \<Rightarrow> lifecycle \<times> nat" where
  "initialize s =
     (case initPromise s of
        Some p \<Rightarrow> (s, p)
      | None \<Rightarrow> (case doInitialize s of (s', p) \<Rightarrow> (s'\<lparr>initPromise := Some p\<rparr>, p)))"

text \<open>
  Events: a caller invokes \<open>initialize\<close>; the tokenizer load awaited by the run that owns
  promise \<open>p\<close> settles (\<open>None\<close>: loaded, \<open>Some e\<close>: thrown); likewise the model load. An
  event for a run that is not waiting at that point cannot happen and changes nothing.
\<close>

datatype event = Call | TokenizerSettled nat "exn option" | ModelSettled nat "exn option"

definition resume_tokenizer :: "nat \<Rightarrow> exn option \<Rightarrow> lifecycle \<Rightarrow> lifecycle" where
  "resume_tokenizer p r s =
     (if (p, AwaitTokenizer) \<in> set (running s)
      then (case r of
              None \<Rightarrow> s\<lparr>tokenizerSet := True,
                          running := map (\<lambda>x. if x = (p, AwaitTokenizer) then (p, AwaitModel) else x)
                                       (running s),
                          model_loads := model_loads s + 1\<rparr>
            | Some e \<Rightarrow> s\<lparr>running := removeAll (p, AwaitTokenizer) (running s),
                            promises := (promises s)[p := Rejected e]\<rparr>)
      else s)"

definition resume_model :: "nat \<Rightarrow> exn option \<Rightarrow> lifecycle \<Rightarrow> lifecycle" where
  "resume_model p r s =
     (if (p, AwaitModel) \<in> set (running s)
      then (case r of
              None \<Rightarrow> s\<lparr>modelSet := True, isInitialized := True,
                          running := removeAll (p, AwaitModel) (running s),
                          promises := (promises s)[p := Fulfilled]\<rparr>
            | Some e \<Rightarrow> s\<lparr>running := removeAll (p, AwaitModel) (running s),
                            promises := (promises s)[p := Rejected e]\<rparr>)
      else s)"

text \<open>
  One event: the new state and, for a call, the promise handed to the caller.
\<close>

fun step :: "event \<Rightarrow> lifecycle \<Rightarrow> lifecycle \<times> nat list" where
  "step Call s = (case initialize s of (s', p) \<Rightarrow> (s', [p]))"
| "step (TokenizerSettled p r) s = (resume_tokenizer p r s, [])"
| "step (ModelSettled p r) s = (resume_model p r s, [])"

fun run :: "event list \<Rightarrow> lifecycle \<Rightarrow> lifecycle \<times> nat list" where
  "run [] s = (s, [])"
| "run (ev # evs) s =
     (case step ev s of (s', ps) \<Rightarrow> (case run evs s' of (s'', qs) \<Rightarrow> (s'', ps @ qs)))"


section \<open>Listener startup\<close>

datatype level = LOG | WARN | ERROR

datatype outcome = ListenHTTPS nat | ListenHTTP nat | Exit nat

text \<open>
  What \<open>startServer\<close> reads from its environment: the variable \<open>USE_SSL\<close>, the outcome of
  the model pre-initialisation, \<open>fs.existsSync\<close> and \<open>fs.readFileSync\<close> on the two
  certificate paths, whether \<open>https.createServer\<close> throws on the material, and the port.
  The log holds the lines written before the listener is up (without their emoji); the
  lines of the \<open>listen\<close> callbacks are not modelled.
\<close>

record startup =
  env_USE_SSL :: "string option"
  initialize_outcome :: "exn option"
  SSL_KEY_PATH :: string
  SSL_CERT_PATH :: string
  key_exists :: bool
  cert_exists :: bool
  read_key :: "exn + string"
  read_cert :: "exn + string"
  createServer_error :: "exn option"
  PORT :: nat

text \<open>\<open>process.env.USE_SSL === 'false' ? false : true\<close>\<close>

definition USE_SSL :: "startup \<Rightarrow> bool" where
  "USE_SSL st = (if env_USE_SSL st = Some ''false'' then False else True)"

text \<open>\<open>process.env.USE_SSL === 'true' || false\<close> in \<open>src/server.ts\<close>\<close>

definition USE_SSL_v0 :: "startup \<Rightarrow> bool" where
  "USE_SSL_v0 st = (env_USE_SSL st = Some ''true'' \<or> False)"

text \<open>The inner \<open>try\<close> block of the full service: its log and its result or exception.\<close>

definition https_setup :: "startup \<Rightarrow> (level \<times> string) list \<times> (exn + outcome)" where
  "https_setup st =
     (if \<not> key_exists st \<or> \<not> cert_exists st
      then ([(WARN, ''SSL certificates not found:''),
             (WARN, ''    Private key: '' @ SSL_KEY_PATH st),
             (WARN, ''    Certificate: '' @ SSL_CERT_PATH st),
             (WARN, ''Falling back to HTTP mode...''),
             (WARN, ''    To generate SSL certificates, run: ./generate-ssl-certs.sh'')],
            Inl (Error ''SSL certificates not found''))
      else (case read_key st of
              Inl e \<Rightarrow> ([], Inl e)
            | Inr key \<Rightarrow>
                (case read_cert st of
                   Inl e \<Rightarrow> ([], Inl e)
                 | Inr cert \<Rightarrow>
                     (case createServer_error st of
                        Some e \<Rightarrow> ([], Inl e)
                      | None \<Rightarrow> ([(LOG, ''SSL/HTTPS mode enabled successfully'')],
                                 Inr (ListenHTTPS (PORT st)))))))"

definition startServer :: "startup \<Rightarrow> (level \<times> string) list \<times> outcome" where
  "startServer st =
     (case initialize_outcome st of
        Some e \<Rightarrow> ([(LOG, ''Starting Gemma embedding service...''),
                    (ERROR, ''Failed to start server: '' @ message e)], Exit 1)
      | None \<Rightarrow>
          if USE_SSL st
          then (case https_setup st of
                  (logs, Inr listening) \<Rightarrow>
                    ((LOG, ''Starting Gemma embedding service...'') # logs, listening)
                | (logs, Inl sslError) \<Rightarrow>
                    ((LOG, ''Starting Gemma embedding service...'') # logs
                     @ [(WARN, ''Failed to start HTTPS server: '' @ message sslError),
                        (WARN, ''Falling back to HTTP mode...'')],
                     ListenHTTP (PORT st)))
          else ([(LOG, ''Starting Gemma embedding service...'')], ListenHTTP (PORT st)))"

text \<open>
  \<open>startServer\<close> of \<open>src/server.ts\<close>: missing certificate files end the process with
  \<open>process.exit(1)\<close>, and an exception while reading them reaches the outer \<open>catch\<close>,
  which exits as well.
\<close>

definition startServer_v0 :: "startup \<Rightarrow> (level \<times> string) list \<times> outcome" where
  "startServer_v0 st =
     (case initialize_outcome st of
        Some e \<Rightarrow> ([(LOG, ''Starting Gemma embedding service...''),
                    (ERROR, ''Failed to start server: '' @ message e)], Exit 1)
      | None \<Rightarrow>
          if USE_SSL_v0 st
          then (if \<not> key_exists st \<or> \<not> cert_exists st
                then ([(LOG, ''Starting Gemma embedding service...''),
                       (ERROR, ''SSL certificates not found. Please ensure the following files exist:''),
                       (ERROR, ''  Private key: '' @ SSL_KEY_PATH st),
                       (ERROR, ''  Certificate: '' @ SSL_CERT_PATH st),
                       (ERROR, ''Or set USE_SSL=false to use HTTP instead.'')], Exit 1)
                else (case read_key st of
                        Inl e \<Rightarrow> ([(LOG, ''Starting Gemma embedding service...''),
                                    (ERROR, ''Failed to start server: '' @ message e)], Exit 1)
                      | Inr key \<Rightarrow>
                          (case read_cert st of
                             Inl e \<Rightarrow> ([(LOG, ''Starting Gemma embedding service...''),
                                         (ERROR, ''Failed to start server: '' @ message e)], Exit 1)
                           | Inr cert \<Rightarrow>
                               (case createServer_error st of
                                  Some e \<Rightarrow> ([(LOG, ''Starting Gemma embedding service...''),
                                              (ERROR, ''Failed to start server: '' @ message e)],
                                             Exit 1)
                                | None \<Rightarrow> ([(LOG, ''Starting Gemma embedding service...'')],
                                           ListenHTTPS (PORT st))))))
          else ([(LOG, ''Starting Gemma embedding service...'')], ListenHTTP (PORT st)))"

section \<open>Concrete inputs\<close>

text \<open>
  An encoder that loads and answers every batch with one two-component row per text, and
  one that answers with the same row of norm 2 for every text.
\<close>

definition demo_service :: EmbeddingService where
  "demo_service = \<lparr>initialize_result = None,
                     infer = (\<lambda>texts. Inr (map (\<lambda>text. [real (length text), 1]) texts))\<rparr>"

definition flat_service :: EmbeddingService where
  "flat_service = \<lparr>initialize_result = None,
                     infer = (\<lambda>texts. Inr (map (\<lambda>text. [2, 0]) texts))\<rparr>"

text \<open>
  A well-formed authenticated request for the model of the service, to a server whose
  \<open>API_KEY\<close> is \<open>secret\<close>.
\<close>

definition demo_request :: request where
  "demo_request = \<lparr>authorization = Some ''Bearer secret'',
                     input = Some (InputString ''hello''),
                     model = Some ''embeddinggemma-300m'',
                     dimensions = None,
                     encoding_format = None\<rparr>"

text \<open>
  A startup with encrypted mode requested (\<open>USE_SSL=true\<close>) and no certificate files.
\<close>

definition demo_startup :: startup where
  "demo_startup = \<lparr>env_USE_SSL = Some ''true'', initialize_outcome = None,
                     SSL_KEY_PATH = ''certs/key.pem'', SSL_CERT_PATH = ''certs/cert.pem'',
                     key_exists = False, cert_exists = False,
                     read_key = Inl (Error ''ENOENT''), read_cert = Inl (Error ''ENOENT''),
                     createServer_error = None, PORT = 8082\<rparr>"


text \<open>
  An encoder that answers the text \<open>blank\<close> with a zero row, the text \<open>far\<close> with a
  row orthogonal to the others and every other text with the row \<open>[1, 0]\<close>.
\<close>

definition degenerate_service :: EmbeddingService where
  "degenerate_service =
     \<lparr>initialize_result = None,
      infer = (\<lambda>texts. Inr (map (\<lambda>text. if text = prefix_document @ ''blank'' then [0, 0]
                                         else if text = prefix_document @ ''far'' then [0, 1]
                                         else [1, 0]) texts))\<rparr>"

text \<open>An encoder of the native dimension 768 whose rows have Euclidean norm 2.\<close>

definition wide_service :: EmbeddingService where
  "wide_service = \<lparr>initialize_result = None,
                     infer = (\<lambda>texts. Inr (map (\<lambda>text. 2 # replicate 767 0) texts))\<rparr>"

section \<open>Properties of sorting and ranking\<close>

lemma binary_search_bounds:
  "left \<le> right \<Longrightarrow>
     left \<le> binary_search c pivot a left right \<and> binary_search c pivot a left right \<le> right"
proof (induction c pivot a left right rule: binary_search.induct)
  case (1 c pivot a left right)
  show ?case
  proof (cases "left < right")
    case False
    then show ?thesis using "1.prems" by (subst (1 2) binary_search.simps) simp
  next
    case True
    let ?mid = "left + (right - left) div 2"
    have mid: "left \<le> ?mid" "?mid < right" using True by auto
    show ?thesis
    proof (cases "sort_order (c pivot (a ! ?mid)) < 0")
      case neg: True
      have "left \<le> binary_search c pivot a left ?mid \<and> binary_search c pivot a left ?mid \<le> ?mid"
        using "1.IH"(1) [OF True refl neg] mid by simp
      moreover have "binary_search c pivot a left right = binary_search c pivot a left ?mid"
        using True neg by (subst binary_search.simps) (simp add: Let_def)
      ultimately show ?thesis using mid by simp
    next
      case nonneg: False
      have "?mid + 1 \<le> binary_search c pivot a (?mid + 1) right
            \<and> binary_search c pivot a (?mid + 1) right \<le> right"
        using "1.IH"(2) [OF True refl nonneg] mid by simp
      moreover have "binary_search c pivot a left right = binary_search c pivot a (?mid + 1) right"
        using True nonneg by (subst binary_search.simps) (simp add: Let_def)
      ultimately show ?thesis using mid by simp
    qed
  qed
qed

lemma insert_step_decompose:
  assumes "left \<le> start" and "start < length a"
  shows "take left a @ a ! start # drop left (take start a) @ drop (Suc start) a
           = take left (take start a) @ a ! start # drop left (take start a) @ drop (Suc start) a"
    and "a = take left (take start a) @ drop left (take start a) @ a ! start # drop (Suc start) a"
proof -
  show "take left a @ a ! start # drop left (take start a) @ drop (Suc start) a
           = take left (take start a) @ a ! start # drop left (take start a) @ drop (Suc start) a"
    using assms by (simp add: min_def)
  have "a = take start a @ a ! start # drop (Suc start) a"
    using assms(2) by (rule id_take_nth_drop)
  also have "take start a = take left (take start a) @ drop left (take start a)"
    by (rule append_take_drop_id [symmetric])
  finally show "a = take left (take start a) @ drop left (take start a) @ a ! start # drop (Suc start) a"
    by simp
qed

lemma mset_insert_step:
  assumes "left \<le> start" and "start < length a"
  shows "mset (take left a @ a ! start # drop left (take start a) @ drop (Suc start) a) = mset a"
proof -
  have "mset a = mset (take left (take start a) @ drop left (take start a)
                         @ a ! start # drop (Suc start) a)"
    using insert_step_decompose(2) [OF assms] by simp
  then show ?thesis
    unfolding insert_step_decompose(1) [OF assms] by simp
qed

lemma mset_binary_insertion_sort:
  "high \<le> length a \<Longrightarrow> mset (binary_insertion_sort c a start high) = mset a"
proof (induction c a start high rule: binary_insertion_sort.induct)
  case (1 c a start high)
  show ?case
  proof (cases "start < high")
    case False
    then show ?thesis by (subst binary_insertion_sort.simps) simp
  next
    case True
    let ?left = "binary_search c (a ! start) a 0 start"
    let ?a' = "take ?left a @ a ! start # drop ?left (take start a) @ drop (Suc start) a"
    have left: "?left \<le> start" using binary_search_bounds [of 0 start c "a ! start" a] by simp
    have lt: "start < length a" using True "1.prems" by simp
    have m: "mset ?a' = mset a" using left lt by (rule mset_insert_step)
    then have "length ?a' = length a" by (rule mset_eq_length)
    then have "mset (binary_insertion_sort c ?a' (Suc start) high) = mset ?a'"
      using "1.IH" [OF True refl refl] "1.prems" by simp
    moreover have "binary_insertion_sort c a start high = binary_insertion_sort c ?a' (Suc start) high"
      using True by (subst binary_insertion_sort.simps) (simp add: Let_def)
    ultimately show ?thesis using m by simp
  qed
qed

lemma run_end_bounds:
  "idx \<le> high \<Longrightarrow> idx \<le> run_end c a d idx high \<and> run_end c a d idx high \<le> high"
proof (induction c a d idx high rule: run_end.induct)
  case (1 c a d idx high)
  show ?case
  proof (cases "idx < high")
    case False
    then show ?thesis using "1.prems" by (subst (1 2) run_end.simps) simp
  next
    case True
    let ?order = "sort_order (c (a ! idx) (a ! (idx - 1)))"
    show ?thesis
    proof (cases "if d then 0 \<le> ?order else ?order < 0")
      case stop: True
      then have "run_end c a d idx high = idx"
        using True by (subst run_end.simps) (auto simp: Let_def)
      then show ?thesis using True by simp
    next
      case go: False
      then have eq: "run_end c a d idx high = run_end c a d (Suc idx) high"
        using True by (subst run_end.simps) (auto simp: Let_def)
      have "Suc idx \<le> run_end c a d (Suc idx) high \<and> run_end c a d (Suc idx) high \<le> high"
      proof (cases d)
        case True
        then show ?thesis using "1.IH"(1) [OF \<open>idx < high\<close> refl] go \<open>idx < high\<close> by simp
      next
        case False
        then show ?thesis using "1.IH"(2) [OF \<open>idx < high\<close> refl] go \<open>idx < high\<close> by simp
      qed
      then show ?thesis using eq by simp
    qed
  qed
qed

lemma mset_reverse_range: "mset (rev (take n xs) @ drop n xs) = mset xs"
proof -
  have "mset (take n xs) + mset (drop n xs) = mset xs"
    by (metis append_take_drop_id mset_append)
  then show ?thesis by simp
qed

lemma mset_array_sort: "mset (array_sort c xs) = mset xs"
proof (cases "length xs < 2")
  case True
  then show ?thesis by (simp add: array_sort_def)
next
  case False
  define d where "d = (sort_order (c (xs ! 1) (xs ! 0)) < 0)"
  define n where "n = run_end c xs d 2 (length xs)"
  define w where "w = (if d then rev (take n xs) @ drop n xs else xs)"
  have w: "mset w = mset xs"
    unfolding w_def using mset_reverse_range [of n xs] by (cases d) simp_all
  then have "length w = length xs" by (rule mset_eq_length)
  then have "mset (binary_insertion_sort c w n (length xs)) = mset w"
    by (intro mset_binary_insertion_sort) simp
  moreover have "array_sort c xs = binary_insertion_sort c w n (length xs)"
    using False unfolding array_sort_def Let_def w_def n_def d_def by (simp only: if_False)
  ultimately show ?thesis using w by simp
qed

lemma sorted_prefix_nth:
  fixes k :: "'a \<Rightarrow> real"
  assumes "sorted (map k (take start a))" and "start \<le> length a" and "i \<le> j" and "j < start"
  shows "k (a ! i) \<le> k (a ! j)"
proof -
  have "map k (take start a) ! i \<le> map k (take start a) ! j"
    using assms by (intro sorted_nth_mono) simp_all
  then show ?thesis using assms by simp
qed

lemma binary_search_spec:
  fixes k :: "'a \<Rightarrow> real"
  shows "(\<And>x. x \<in> set (take start a) \<Longrightarrow> (sort_order (c pivot x) < 0) = (k pivot < k x)) \<Longrightarrow>
   sorted (map k (take start a)) \<Longrightarrow> start \<le> length a \<Longrightarrow>
   left \<le> right \<Longrightarrow> right \<le> start \<Longrightarrow>
   (\<forall>i<left. k (a ! i) \<le> k pivot) \<Longrightarrow>
   (\<forall>i. right \<le> i \<and> i < start \<longrightarrow> k pivot < k (a ! i)) \<Longrightarrow>
   (\<forall>i<binary_search c pivot a left right. k (a ! i) \<le> k pivot) \<and>
   (\<forall>i. binary_search c pivot a left right \<le> i \<and> i < start \<longrightarrow> k pivot < k (a ! i))"
proof (induction c pivot a left right rule: binary_search.induct)
  case (1 c pivot a left right)
  show ?case
  proof (cases "left < right")
    case False
    then have "binary_search c pivot a left right = left"
      by (subst binary_search.simps) simp
    moreover have "left = right" using False "1.prems"(4) by simp
    ultimately show ?thesis using "1.prems"(6,7) by simp
  next
    case True
    let ?mid = "left + (right - left) div 2"
    have mid: "left \<le> ?mid" "?mid < right" using True by auto
    then have ms: "?mid < start" using "1.prems"(5) by simp
    then have mem: "a ! ?mid \<in> set (take start a)"
      using "1.prems"(3) by (metis (no_types, lifting) in_set_conv_nth length_take min.absorb2 nth_take)
    show ?thesis
    proof (cases "sort_order (c pivot (a ! ?mid)) < 0")
      case neg: True
      then have lt: "k pivot < k (a ! ?mid)" using "1.prems"(1) [OF mem] by simp
      have up: "\<forall>i. ?mid \<le> i \<and> i < start \<longrightarrow> k pivot < k (a ! i)"
      proof (intro allI impI)
        fix i assume "?mid \<le> i \<and> i < start"
        then have "k (a ! ?mid) \<le> k (a ! i)"
          using sorted_prefix_nth [OF "1.prems"(2,3)] by blast
        then show "k pivot < k (a ! i)" using lt by simp
      qed
      have eq: "binary_search c pivot a left right = binary_search c pivot a left ?mid"
        using True neg by (subst binary_search.simps) (simp add: Let_def)
      show ?thesis
        unfolding eq
        using "1.IH"(1) [OF True refl neg "1.prems"(1,2,3) mid(1) _ "1.prems"(6) up] ms
        by simp
    next
      case nonneg: False
      then have le: "k (a ! ?mid) \<le> k pivot" using "1.prems"(1) [OF mem] by simp
      have low: "\<forall>i<?mid + 1. k (a ! i) \<le> k pivot"
      proof (intro allI impI)
        fix i assume "i < ?mid + 1"
        then have "k (a ! i) \<le> k (a ! ?mid)"
          using sorted_prefix_nth [OF "1.prems"(2,3) _ ms, of i] by simp
        then show "k (a ! i) \<le> k pivot" using le by simp
      qed
      have eq: "binary_search c pivot a left right = binary_search c pivot a (?mid + 1) right"
        using True nonneg by (subst binary_search.simps) (simp add: Let_def)
      show ?thesis
        unfolding eq
        using "1.IH"(2) [OF True refl nonneg "1.prems"(1,2,3) _ "1.prems"(5) low "1.prems"(7)] mid
        by simp
    qed
  qed
qed

lemma insert_step_sorted:
  fixes k :: "'a \<Rightarrow> real"
  assumes srt: "sorted (map k (take start a))" and lt: "start < length a" and l: "l \<le> start"
    and low: "\<forall>i<l. k (a ! i) \<le> k (a ! start)"
    and up: "\<forall>i. l \<le> i \<and> i < start \<longrightarrow> k (a ! start) < k (a ! i)"
  shows "sorted (map k (take (Suc start)
           (take l a @ a ! start # drop l (take start a) @ drop (Suc start) a)))"
proof -
  let ?P = "take start a"
  have len: "length (take l ?P @ a ! start # drop l ?P) = Suc start"
    using lt l by simp
  have "take (Suc start) (take l a @ a ! start # drop l ?P @ drop (Suc start) a)
          = take (Suc start) ((take l ?P @ a ! start # drop l ?P) @ drop (Suc start) a)"
    using insert_step_decompose(1) [OF l lt] by simp
  also have "\<dots> = take l ?P @ a ! start # drop l ?P"
    using len by (metis append_eq_conv_conj)
  finally have tk: "take (Suc start) (take l a @ a ! start # drop l ?P @ drop (Suc start) a)
          = take l ?P @ a ! start # drop l ?P" .
  have s1: "sorted (map k (take l ?P))"
    using srt by (metis sorted_wrt_take take_map)
  have s2: "sorted (map k (drop l ?P))"
    using srt by (metis sorted_wrt_drop drop_map)
  have b1: "\<forall>x\<in>set (take l ?P). k x \<le> k (a ! start)"
  proof
    fix x assume "x \<in> set (take l ?P)"
    then obtain i where "i < length (take l ?P)" and "x = take l ?P ! i"
      by (metis in_set_conv_nth)
    then have "i < l" and "x = a ! i" using l lt by simp_all
    then show "k x \<le> k (a ! start)" using low by simp
  qed
  have b2: "\<forall>x\<in>set (drop l ?P). k (a ! start) < k x"
  proof
    fix x assume "x \<in> set (drop l ?P)"
    then obtain i where i: "i < length (drop l ?P)" and x: "x = drop l ?P ! i"
      by (metis in_set_conv_nth)
    then have "l + i < start" and "x = a ! (l + i)" using l lt by simp_all
    then show "k (a ! start) < k x" using up by simp
  qed
  have b3: "\<forall>x\<in>set (take l ?P). \<forall>y\<in>set (drop l ?P). k x \<le> k y"
  proof (intro ballI)
    fix x y assume "x \<in> set (take l ?P)" and "y \<in> set (drop l ?P)"
    then have "k x \<le> k (a ! start)" and "k (a ! start) < k y" using b1 b2 by blast+
    then show "k x \<le> k y" by simp
  qed
  have b2': "\<forall>y\<in>set (drop l ?P). k (a ! start) \<le> k y"
    using b2 by (simp add: less_imp_le)
  have "sorted (map k (take l ?P) @ k (a ! start) # map k (drop l ?P))"
    unfolding sorted_append sorted_simps using s1 s2 b1 b2' b3 by auto
  then have "sorted (map k (take l ?P @ a ! start # drop l ?P))" by simp
  then show ?thesis using tk by simp
qed

lemma insert_step_filter:
  fixes k :: "'a \<Rightarrow> real"
  assumes lt: "start < length a" and l: "l \<le> start"
    and up: "\<forall>i. l \<le> i \<and> i < start \<longrightarrow> k (a ! start) < k (a ! i)"
  shows "filter (\<lambda>x. k x = v)
           (take l a @ a ! start # drop l (take start a) @ drop (Suc start) a)
         = filter (\<lambda>x. k x = v) a"
proof -
  let ?P = "take start a"
  let ?f = "filter (\<lambda>x. k x = v)"
  have a: "a = take l ?P @ drop l ?P @ a ! start # drop (Suc start) a"
    using insert_step_decompose(2) [OF l lt] .
  have swap: "?f (a ! start # drop l ?P) = ?f (drop l ?P @ [a ! start])"
  proof (cases "k (a ! start) = v")
    case False
    then show ?thesis by simp
  next
    case True
    have "\<forall>x\<in>set (drop l ?P). k x \<noteq> v"
    proof
      fix x assume "x \<in> set (drop l ?P)"
      then obtain i where i: "i < length (drop l ?P)" and x: "x = drop l ?P ! i"
        by (metis in_set_conv_nth)
      then have "l + i < start" and "x = a ! (l + i)" using l lt by simp_all
      then have "k (a ! start) < k x" using up by simp
      with True show "k x \<noteq> v" by auto
    qed
    then have "?f (drop l ?P) = []" by (simp add: filter_empty_conv)
    then show ?thesis by simp
  qed
  have "?f (take l a @ a ! start # drop l ?P @ drop (Suc start) a)
          = ?f (take l ?P) @ ?f (a ! start # drop l ?P) @ ?f (drop (Suc start) a)"
    unfolding insert_step_decompose(1) [OF l lt] by simp
  also have "\<dots> = ?f (take l ?P) @ ?f (drop l ?P @ [a ! start]) @ ?f (drop (Suc start) a)"
    by (simp only: swap)
  also have "\<dots> = ?f (take l ?P @ drop l ?P @ a ! start # drop (Suc start) a)"
    by simp
  also have "\<dots> = ?f a" using a by simp
  finally show ?thesis .
qed

lemma binary_insertion_sort_stable:
  fixes k :: "'a \<Rightarrow> real"
  shows "length a = high \<Longrightarrow>
   (\<forall>x\<in>set a. \<forall>y\<in>set a. (sort_order (c x y) < 0) = (k x < k y)) \<Longrightarrow>
   sorted (map k (take start a)) \<Longrightarrow>
   sorted (map k (binary_insertion_sort c a start high)) \<and>
   (\<forall>v. filter (\<lambda>x. k x = v) (binary_insertion_sort c a start high) = filter (\<lambda>x. k x = v) a)"
proof (induction c a start high rule: binary_insertion_sort.induct)
  case (1 c a start high)
  show ?case
  proof (cases "start < high")
    case False
    then have "binary_insertion_sort c a start high = a"
      by (subst binary_insertion_sort.simps) simp
    moreover have "take start a = a" using False "1.prems"(1) by simp
    ultimately show ?thesis using "1.prems"(3) by simp
  next
    case True
    let ?pivot = "a ! start"
    let ?left = "binary_search c ?pivot a 0 start"
    let ?a' = "take ?left a @ ?pivot # drop ?left (take start a) @ drop (Suc start) a"
    have lt: "start < length a" using True "1.prems"(1) by simp
    have left: "?left \<le> start" using binary_search_bounds [of 0 start c ?pivot a] by simp
    have pm: "?pivot \<in> set a" using lt by simp
    have key: "\<And>x. x \<in> set (take start a) \<Longrightarrow> (sort_order (c ?pivot x) < 0) = (k ?pivot < k x)"
      using "1.prems"(2) pm by (meson in_set_takeD)
    have spec: "(\<forall>i<?left. k (a ! i) \<le> k ?pivot) \<and>
                (\<forall>i. ?left \<le> i \<and> i < start \<longrightarrow> k ?pivot < k (a ! i))"
    proof (rule binary_search_spec [where start = start and k = k])
      show "\<And>x. x \<in> set (take start a) \<Longrightarrow>
              (sort_order (c ?pivot x) < 0) = (k ?pivot < k x)" by (rule key)
      show "sorted (map k (take start a))" by (rule "1.prems"(3))
      show "start \<le> length a" using lt by simp
      show "0 \<le> start" by simp
      show "start \<le> start" by simp
      show "\<forall>i<0. k (a ! i) \<le> k ?pivot" by simp
      show "\<forall>i. start \<le> i \<and> i < start \<longrightarrow> k ?pivot < k (a ! i)" by simp
    qed
    have m: "mset ?a' = mset a" using left lt by (rule mset_insert_step)
    then have len: "length ?a' = high" using "1.prems"(1) by (metis mset_eq_length)
    have set: "set ?a' = set a" using m by (rule mset_eq_setD)
    have srt: "sorted (map k (take (Suc start) ?a'))"
      using insert_step_sorted [OF "1.prems"(3) lt left] spec by blast
    have flt: "\<And>v. filter (\<lambda>x. k x = v) ?a' = filter (\<lambda>x. k x = v) a"
      using insert_step_filter [OF lt left] spec by blast
    have eq: "binary_insertion_sort c a start high = binary_insertion_sort c ?a' (Suc start) high"
      using True by (subst binary_insertion_sort.simps) (simp add: Let_def)
    have key': "\<forall>x\<in>set ?a'. \<forall>y\<in>set ?a'. (sort_order (c x y) < 0) = (k x < k y)"
      unfolding set by (rule "1.prems"(2))
    have ih: "sorted (map k (binary_insertion_sort c ?a' (Suc start) high)) \<and>
          (\<forall>v. filter (\<lambda>x. k x = v) (binary_insertion_sort c ?a' (Suc start) high)
                 = filter (\<lambda>x. k x = v) ?a')"
      by (rule "1.IH" [OF True refl refl len key' srt])
    show ?thesis
      unfolding eq
    proof (intro conjI allI)
      show "sorted (map k (binary_insertion_sort c ?a' (Suc start) high))"
        using ih by (rule conjunct1)
    next
      fix v
      have "filter (\<lambda>x. k x = v) (binary_insertion_sort c ?a' (Suc start) high)
              = filter (\<lambda>x. k x = v) ?a'"
        using ih by blast
      also have "\<dots> = filter (\<lambda>x. k x = v) a" by (rule flt)
      finally show "filter (\<lambda>x. k x = v) (binary_insertion_sort c ?a' (Suc start) high)
              = filter (\<lambda>x. k x = v) a" .
    qed
  qed
qed

lemma run_end_run:
  "idx \<le> j \<Longrightarrow> j < run_end c a d idx high \<Longrightarrow>
     (if d then sort_order (c (a ! j) (a ! (j - 1))) < 0
      else 0 \<le> sort_order (c (a ! j) (a ! (j - 1))))"
proof (induction c a d idx high rule: run_end.induct)
  case (1 c a d idx high)
  show ?case
  proof (cases "idx < high")
    case False
    then have "run_end c a d idx high = idx" by (subst run_end.simps) simp
    then show ?thesis using "1.prems" by simp
  next
    case True
    let ?order = "sort_order (c (a ! idx) (a ! (idx - 1)))"
    show ?thesis
    proof (cases "if d then 0 \<le> ?order else ?order < 0")
      case stop: True
      then have "run_end c a d idx high = idx"
        using True by (subst run_end.simps) (auto simp: Let_def)
      then show ?thesis using "1.prems" by simp
    next
      case go: False
      then have eq: "run_end c a d idx high = run_end c a d (Suc idx) high"
        using True by (subst run_end.simps) (auto simp: Let_def)
      show ?thesis
      proof (cases "j = idx")
        case True
        then show ?thesis using go by (auto split: if_splits)
      next
        case False
        then have j: "Suc idx \<le> j" using "1.prems"(1) by simp
        have j2: "j < run_end c a d (Suc idx) high" using "1.prems"(2) eq by simp
        show ?thesis
        proof (cases d)
          case True
          then show ?thesis using "1.IH"(1) [OF \<open>idx < high\<close> refl _ _ j j2] go by simp
        next
          case False
          then show ?thesis using "1.IH"(2) [OF \<open>idx < high\<close> refl _ _ j j2] go by simp
        qed
      qed
    qed
  qed
qed

lemma filter_rev_distinct_keys:
  fixes k :: "'a \<Rightarrow> real"
  assumes "distinct (map k xs)"
  shows "filter (\<lambda>x. k x = v) (rev xs) = filter (\<lambda>x. k x = v) xs"
proof -
  have "length (filter (\<lambda>x. k x = v) xs) \<le> 1"
    using assms
  proof (induction xs)
    case Nil
    show ?case by simp
  next
    case (Cons x xs)
    show ?case
    proof (cases "k x = v")
      case False
      then show ?thesis using Cons by simp
    next
      case True
      then have "\<forall>y\<in>set xs. k y \<noteq> v" using Cons.prems by (auto simp: image_iff)
      then have "filter (\<lambda>x. k x = v) xs = []" by (simp add: filter_empty_conv)
      then show ?thesis using True by simp
    qed
  qed
  then have "rev (filter (\<lambda>x. k x = v) xs) = filter (\<lambda>x. k x = v) xs"
    by (cases "filter (\<lambda>x. k x = v) xs") (auto simp: le_Suc_eq)
  then show ?thesis by (simp add: rev_filter)
qed

lemma array_sort_stable:
  fixes k :: "'a \<Rightarrow> real"
  assumes key: "\<forall>x\<in>set xs. \<forall>y\<in>set xs. (sort_order (c x y) < 0) = (k x < k y)"
  shows "sorted (map k (array_sort c xs)) \<and>
         (\<forall>v. filter (\<lambda>x. k x = v) (array_sort c xs) = filter (\<lambda>x. k x = v) xs)"
proof (cases "length xs < 2")
  case True
  then have "xs = [] \<or> (\<exists>x. xs = [x])"
    by (cases xs) (auto simp: less_Suc_eq numeral_2_eq_2)
  then have "sorted (map k xs)" by auto
  then show ?thesis using True by (simp add: array_sort_def)
next
  case False
  define d where "d = (sort_order (c (xs ! 1) (xs ! 0)) < 0)"
  define n where "n = run_end c xs d 2 (length xs)"
  define w where "w = (if d then rev (take n xs) @ drop n xs else xs)"
  have n: "2 \<le> n" "n \<le> length xs"
    using run_end_bounds [of 2 "length xs" c xs d] False by (simp_all add: n_def)
  have adj: "if d then sort_order (c (xs ! j) (xs ! (j - 1))) < 0
             else 0 \<le> sort_order (c (xs ! j) (xs ! (j - 1)))" if "1 \<le> j" and "j < n" for j
  proof (cases "j = 1")
    case True
    then show ?thesis by (simp add: d_def)
  next
    case False
    then have "2 \<le> j" using that(1) by simp
    then show ?thesis using run_end_run [of 2 j c xs d "length xs"] that(2) by (simp add: n_def)
  qed
  have mem: "xs ! j \<in> set xs" if "j < n" for j using that n by simp
  have wm: "mset w = mset xs"
    unfolding w_def using mset_reverse_range [of n xs] by (cases d) simp_all
  then have wl: "length w = length xs" by (rule mset_eq_length)
  have ws: "set w = set xs" using wm by (rule mset_eq_setD)
  have front: "sorted (map k (take n w)) \<and>
               (\<forall>v. filter (\<lambda>x. k x = v) w = filter (\<lambda>x. k x = v) xs)"
  proof (cases d)
    case False
    have "\<forall>i. Suc i < length (map k (take n xs)) \<longrightarrow>
             map k (take n xs) ! i \<le> map k (take n xs) ! Suc i"
    proof (intro allI impI)
      fix i assume "Suc i < length (map k (take n xs))"
      then have i: "Suc i < n" using n by simp
      then have "0 \<le> sort_order (c (xs ! Suc i) (xs ! i))"
        using adj [of "Suc i"] False by simp
      then have "\<not> sort_order (c (xs ! Suc i) (xs ! i)) < 0" by simp
      moreover have "(sort_order (c (xs ! Suc i) (xs ! i)) < 0) = (k (xs ! Suc i) < k (xs ! i))"
        using key mem [of "Suc i"] mem [of i] i by simp
      ultimately have "\<not> k (xs ! Suc i) < k (xs ! i)" by simp
      then show "map k (take n xs) ! i \<le> map k (take n xs) ! Suc i"
        using i n by simp
    qed
    then have "sorted (map k (take n xs))" by (simp only: sorted_iff_nth_Suc)
    then show ?thesis using False by (simp add: w_def)
  next
    case True
    have "\<forall>i. Suc i < length (map k (take n xs)) \<longrightarrow>
             map k (take n xs) ! i > map k (take n xs) ! Suc i"
    proof (intro allI impI)
      fix i assume "Suc i < length (map k (take n xs))"
      then have i: "Suc i < n" using n by simp
      then have "sort_order (c (xs ! Suc i) (xs ! i)) < 0"
        using adj [of "Suc i"] True by simp
      moreover have "(sort_order (c (xs ! Suc i) (xs ! i)) < 0) = (k (xs ! Suc i) < k (xs ! i))"
        using key mem [of "Suc i"] mem [of i] i by simp
      ultimately have "k (xs ! Suc i) < k (xs ! i)" by simp
      then show "map k (take n xs) ! i > map k (take n xs) ! Suc i"
        using i n by simp
    qed
    then have desc: "sorted_wrt (>) (map k (take n xs))"
      by (subst sorted_wrt_iff_nth_Suc_transp) (auto simp: transp_def)
    then have asc: "sorted_wrt (<) (rev (map k (take n xs)))"
      by (simp add: sorted_wrt_rev)
    then have s: "sorted (map k (rev (take n xs)))"
      by (simp add: strict_sorted_imp_sorted rev_map)
    have "distinct (rev (map k (take n xs)))"
      using asc by (simp only: strict_sorted_iff)
    then have dist: "distinct (map k (take n xs))" by simp
    have tk: "take n w = rev (take n xs)"
      using True n by (simp add: w_def)
    have "filter (\<lambda>x. k x = v) w = filter (\<lambda>x. k x = v) xs" for v
    proof -
      have "filter (\<lambda>x. k x = v) w
              = filter (\<lambda>x. k x = v) (rev (take n xs)) @ filter (\<lambda>x. k x = v) (drop n xs)"
        using True by (simp add: w_def)
      also have "\<dots> = filter (\<lambda>x. k x = v) (take n xs) @ filter (\<lambda>x. k x = v) (drop n xs)"
        by (simp only: filter_rev_distinct_keys [OF dist])
      also have "\<dots> = filter (\<lambda>x. k x = v) xs"
        by (metis append_take_drop_id filter_append)
      finally show ?thesis .
    qed
    then show ?thesis using s tk by simp
  qed
  have key': "\<forall>x\<in>set w. \<forall>y\<in>set w. (sort_order (c x y) < 0) = (k x < k y)"
    unfolding ws by (rule key)
  have bis: "sorted (map k (binary_insertion_sort c w n (length xs))) \<and>
        (\<forall>v. filter (\<lambda>x. k x = v) (binary_insertion_sort c w n (length xs))
               = filter (\<lambda>x. k x = v) w)"
    using front by (intro binary_insertion_sort_stable [OF wl key']) simp
  have eq: "array_sort c xs = binary_insertion_sort c w n (length xs)"
    using False unfolding array_sort_def Let_def w_def n_def d_def by (simp only: if_False)
  show ?thesis
    unfolding eq
  proof (intro conjI allI)
    show "sorted (map k (binary_insertion_sort c w n (length xs)))"
      using bis by (rule conjunct1)
  next
    fix v
    have "filter (\<lambda>x. k x = v) (binary_insertion_sort c w n (length xs))
            = filter (\<lambda>x. k x = v) w"
      using bis by blast
    also have "\<dots> = filter (\<lambda>x. k x = v) xs" using front by blast
    finally show "filter (\<lambda>x. k x = v) (binary_insertion_sort c w n (length xs))
            = filter (\<lambda>x. k x = v) xs" .
  qed
qed

lemma length_array_sort: "length (array_sort c xs) = length xs"
  using mset_array_sort [of c xs] by (metis size_mset)

lemma set_array_sort: "set (array_sort c xs) = set xs"
  using mset_array_sort [of c xs] by (metis set_mset_mset)

lemma map_index_with_indices: "map index (with_indices sims) = [0..<length sims]"
  by (simp add: with_indices_def o_def)

lemma score_with_indices: "it \<in> set (with_indices sims) \<Longrightarrow> score it = sims ! index it"
  by (auto simp: with_indices_def)

lemma index_with_indices: "it \<in> set (with_indices sims) \<Longrightarrow> index it < length sims"
  by (auto simp: with_indices_def)

lemma by_score_desc_key:
  assumes "score x \<noteq> None" and "score y \<noteq> None"
  shows "(sort_order (by_score_desc x y) < 0) = (- the (score x) < - the (score y))"
  using assms by (auto simp: by_score_desc_def js_sub_def sort_order_def)

lemma ranking_indices_stable:
  assumes nn: "list_all (\<lambda>s. s \<noteq> None) sims"
  shows "filter (\<lambda>i. sims ! i = Some s) (ranking_indices sims)
           = filter (\<lambda>i. sims ! i = Some s) [0..<length sims]"
proof -
  let ?k = "\<lambda>it::RankingItem. - the (score it)"
  let ?P = "\<lambda>it::RankingItem. ?k it = - s"
  let ?Q = "\<lambda>i. sims ! i = Some s"
  have some: "score it \<noteq> None" if "it \<in> set (with_indices sims)" for it
  proof -
    have "sims ! index it \<in> set sims"
      using index_with_indices [OF that] by simp
    then have "sims ! index it \<noteq> None" using nn by (auto simp: list_all_iff)
    then show ?thesis using score_with_indices [OF that] by simp
  qed
  have key: "\<forall>x\<in>set (with_indices sims). \<forall>y\<in>set (with_indices sims).
               (sort_order (by_score_desc x y) < 0) = (?k x < ?k y)"
    using some by (intro ballI by_score_desc_key) auto
  have same: "filter ?Q (map index xs) = map index (filter ?P xs)"
    if sub: "set xs \<subseteq> set (with_indices sims)" for xs
  proof -
    have "filter ?Q (map index xs) = map index (filter (?Q \<circ> index) xs)"
      by (simp add: filter_map)
    also have "filter (?Q \<circ> index) xs = filter ?P xs"
    proof (rule filter_cong [OF refl])
      fix it assume "it \<in> set xs"
      then have it: "it \<in> set (with_indices sims)" using sub by blast
      then obtain r where r: "score it = Some r" using some by auto
      then show "(?Q \<circ> index) it = ?P it"
        using score_with_indices [OF it] by auto
    qed
    finally show ?thesis .
  qed
  have "filter ?Q (ranking_indices sims) = map index (filter ?P (ranking sims))"
    unfolding ranking_indices_def by (rule same) (simp add: ranking_def set_array_sort)
  also have "\<dots> = map index (filter ?P (with_indices sims))"
  proof -
    have "filter ?P (array_sort by_score_desc (with_indices sims))
            = filter ?P (with_indices sims)"
      using array_sort_stable [OF key] by blast
    then show ?thesis by (simp only: ranking_def)
  qed
  also have "\<dots> = filter ?Q (map index (with_indices sims))"
    by (rule same [symmetric]) simp
  finally show ?thesis by (simp add: map_index_with_indices)
qed

lemma ranking_sorted:
  assumes nn: "list_all (\<lambda>s. s \<noteq> None) sims"
  shows "sorted (rev (map (\<lambda>it. the (score it)) (ranking sims)))"
proof -
  let ?k = "\<lambda>it::RankingItem. - the (score it)"
  have some: "score it \<noteq> None" if "it \<in> set (with_indices sims)" for it
  proof -
    have "sims ! index it \<in> set sims"
      using index_with_indices [OF that] by simp
    then have "sims ! index it \<noteq> None" using nn by (auto simp: list_all_iff)
    then show ?thesis using score_with_indices [OF that] by simp
  qed
  have key: "\<forall>x\<in>set (with_indices sims). \<forall>y\<in>set (with_indices sims).
               (sort_order (by_score_desc x y) < 0) = (?k x < ?k y)"
    using some by (intro ballI by_score_desc_key) auto
  have "sorted (map ?k (ranking sims))"
    using array_sort_stable [OF key] by (simp add: ranking_def)
  then have "sorted (map uminus (map (\<lambda>it. the (score it)) (ranking sims)))"
    by (simp add: o_def)
  then show ?thesis
    by (simp add: sorted_wrt_rev sorted_wrt_map)
qed

lemma mset_ranking_indices: "mset (ranking_indices sims) = mset [0..<length sims]"
proof -
  have "mset (map index (array_sort by_score_desc (with_indices sims)))
        = image_mset index (mset (array_sort by_score_desc (with_indices sims)))"
    by (rule mset_map)
  also have "\<dots> = image_mset index (mset (with_indices sims))"
    by (simp only: mset_array_sort)
  also have "\<dots> = mset (map index (with_indices sims))"
    by (rule mset_map [symmetric])
  finally show ?thesis
    by (simp only: ranking_indices_def ranking_def map_index_with_indices)
qed

lemma length_ranking_indices: "length (ranking_indices sims) = length sims"
  by (simp add: ranking_indices_def ranking_def length_array_sort with_indices_def)

lemma ranking_indices_perm:
  "length sims = n \<Longrightarrow>
     mset (ranking_indices sims) = mset [0..<n] \<and> length (ranking_indices sims) = n
     \<and> distinct (ranking_indices sims) \<and> set (ranking_indices sims) = {0..<n}"
proof -
  assume n: "length sims = n"
  have m: "mset (ranking_indices sims) = mset [0..<n]"
    using mset_ranking_indices [of sims] n by simp
  have "distinct (ranking_indices sims)"
    using m by (metis distinct_upt mset_eq_imp_distinct_iff)
  moreover have "set (ranking_indices sims) = {0..<n}"
    using m by (metis mset_eq_setD set_upt)
  ultimately show ?thesis using m n by (simp add: length_ranking_indices)
qed

section \<open>Properties of the matrix product\<close>

lemma ncols_tensor_transpose:
  "0 < ncols t \<Longrightarrow> ncols (tensor_transpose t) = length t"
  by (simp add: tensor_transpose_def ncols_def upt_conv_Cons split: list.splits)

lemma ncols_is_matrix: "is_matrix (Suc n) d t \<Longrightarrow> ncols t = d"
  by (cases t) (simp_all add: is_matrix_def ncols_def)

lemma matmul_row0:
  assumes "is_matrix (Suc n) d t" and "0 < d"
  shows "\<exists>row0 rest. matmul t (tensor_transpose t) = row0 # rest \<and> length row0 = Suc n"
proof -
  from assms(1) obtain r rs where t: "t = r # rs" and len: "length t = Suc n"
    by (cases t) (auto simp: is_matrix_def)
  have "ncols (tensor_transpose t) = Suc n"
    using assms ncols_is_matrix [OF assms(1)] len by (simp add: ncols_tensor_transpose)
  then show ?thesis
    by (simp add: matmul_def t)
qed

lemma sum_nth_zip:
  "length u = length v \<Longrightarrow> (\<Sum>k\<leftarrow>[0..<length u]. f (u ! k) (v ! k)) = (\<Sum>(a, b)\<leftarrow>zip u v. f a b)"
proof -
  assume len: "length u = length v"
  have "map (\<lambda>k. f (u ! k) (v ! k)) [0..<length u] = map (\<lambda>(a, b). f a b) (zip u v)"
    by (rule nth_equalityI) (use len in auto)
  then show ?thesis by simp
qed

lemma sum_nth_self:
  "(\<Sum>k\<leftarrow>[0..<length u]. f (u ! k)) = (\<Sum>a\<leftarrow>u. f a)"
proof -
  have "map (\<lambda>k. f (u ! k)) [0..<length u] = map f u"
    by (rule nth_equalityI) auto
  then show ?thesis by simp
qed

lemma matmul_transpose_rows:
  assumes "is_matrix (Suc m) n t" and "0 < n"
  shows "matmul t (tensor_transpose t) = map (\<lambda>row. map (\<lambda>r. dot row r) t) t"
proof -
  have len: "length t = Suc m" and rows: "\<And>r. r \<in> set t \<Longrightarrow> length r = n"
    using assms(1) by (auto simp: is_matrix_def list_all_iff)
  have nc: "ncols t = n" by (rule ncols_is_matrix [OF assms(1)])
  have nct: "ncols (tensor_transpose t) = length t"
    using nc assms(2) by (simp add: ncols_tensor_transpose)
  have entry: "(\<Sum>k\<leftarrow>[0..<length row]. row ! k * tensor_transpose t ! k ! j) = dot row (t ! j)"
    if "row \<in> set t" and "j < length t" for row j
  proof -
    have lr: "length row = n" using that(1) by (rule rows)
    have lj: "length (t ! j) = n" using that(2) by (simp add: rows)
    have "map (\<lambda>k. row ! k * tensor_transpose t ! k ! j) [0..<length row]
            = map (\<lambda>k. row ! k * (t ! j) ! k) [0..<length row]"
      using that(2) lr nc by (simp add: tensor_transpose_def)
    then have "(\<Sum>k\<leftarrow>[0..<length row]. row ! k * tensor_transpose t ! k ! j)
                 = (\<Sum>k\<leftarrow>[0..<length row]. row ! k * (t ! j) ! k)"
      by (rule arg_cong [where f = sum_list])
    also have "\<dots> = dot row (t ! j)"
      unfolding dot_def using sum_nth_zip [of row "t ! j" "(*)"] lr lj by simp
    finally show ?thesis .
  qed
  have "map (\<lambda>j. \<Sum>k\<leftarrow>[0..<length row]. row ! k * tensor_transpose t ! k ! j) [0..<length t]
          = map (\<lambda>r. dot row r) t" if "row \<in> set t" for row
    by (rule nth_equalityI) (use that entry in auto)
  then show ?thesis
    by (simp add: matmul_def nct)
qed

section \<open>The similarity loop computes the cosine\<close>

lemma cosine_loop_sums:
  "cosine_loop q d j (a, b, c) =
     (a + (\<Sum>k\<leftarrow>[j..<length q]. q ! k * d ! k),
      b + (\<Sum>k\<leftarrow>[j..<length q]. q ! k * q ! k),
      c + (\<Sum>k\<leftarrow>[j..<length q]. d ! k * d ! k))"
proof (induction q d j "(a, b, c)" arbitrary: a b c rule: cosine_loop.induct)
  case (1 q d j a b c)
  show ?case
  proof (cases "j < length q")
    case True
    have "cosine_loop q d j (a, b, c)
            = cosine_loop q d (Suc j) (a + q ! j * d ! j, b + q ! j * q ! j, c + d ! j * d ! j)"
      using True by (subst cosine_loop.simps) simp
    also have "\<dots> = (a + q ! j * d ! j + (\<Sum>k\<leftarrow>[Suc j..<length q]. q ! k * d ! k),
                     b + q ! j * q ! j + (\<Sum>k\<leftarrow>[Suc j..<length q]. q ! k * q ! k),
                     c + d ! j * d ! j + (\<Sum>k\<leftarrow>[Suc j..<length q]. d ! k * d ! k))"
      using True by (rule "1")
    finally show ?thesis
      using True by (simp add: upt_conv_Cons add.assoc)
  next
    case False
    then show ?thesis by (subst cosine_loop.simps) simp
  qed
qed

lemma cosine_loop_spec:
  assumes "length d = length q"
  shows "cosine_loop q d 0 (0, 0, 0) = (dot q d, (\<Sum>a\<leftarrow>q. a * a), (\<Sum>a\<leftarrow>d. a * a))"
proof -
  have 1: "(\<Sum>k\<leftarrow>[0..<length q]. q ! k * d ! k) = dot q d"
    unfolding dot_def using sum_nth_zip [of q d "(*)"] assms by simp
  have 2: "(\<Sum>k\<leftarrow>[0..<length q]. q ! k * q ! k) = (\<Sum>a\<leftarrow>q. a * a)"
    by (rule sum_nth_self [of "\<lambda>a. a * a" q])
  have 3: "(\<Sum>k\<leftarrow>[0..<length q]. d ! k * d ! k) = (\<Sum>a\<leftarrow>d. a * a)"
    using sum_nth_self [of "\<lambda>a. a * a" d] assms by simp
  show ?thesis
    by (simp only: cosine_loop_sums 1 2 3 add_0)
qed

lemma similarity_spec:
  assumes "length d = length q"
  shows "similarity q d = (if euclidean_norm q * euclidean_norm d = 0 then None
                           else Some (cosine_similarity q d))"
  using assms by (simp add: similarity_def cosine_loop_spec euclidean_norm_def cosine_similarity_def)

lemma flat_sim: "similarity [2, 0] [2, 0] = Some 1"
  by (simp add: similarity_spec euclidean_norm_def cosine_similarity_def dot_def)

section \<open>Claims about reranking\<close>

text \<open>
  Claim C1, as amended. The scores of a rerank call are computed from the rows the encoder
  returned, unreduced. In the full service the score of a document is the cosine
  similarity of its row and the query row, the dot product divided by the product of the
  two Euclidean norms (\<open>NaN\<close> when that product is zero). In \<open>src/server.ts\<close> the score
  is the dot product of the two rows, with no division by the norms.
\<close>

theorem rerank_similarity_scores:
  "(initialize_result svc = None \<and>
    infer svc [prefix_query @ query] = Inr (queryVector # rest) \<and>
    infer svc (map (\<lambda>doc. prefix_document @ doc) documents) = Inr documentVectors \<and>
    list_all (\<lambda>docVector. length docVector = length queryVector) documentVectors
    \<longrightarrow> rerank_similarities svc query documents
          = Inr (map (\<lambda>docVector.
                        if euclidean_norm queryVector * euclidean_norm docVector = 0 then None
                        else Some (cosine_similarity queryVector docVector))
                   documentVectors))
   \<and>
   (initialize_result svc = None \<and>
    infer svc ((prefix_query @ query) # map (\<lambda>doc. prefix_document @ doc) documents)
      = Inr (queryVector0 # documentVectors0) \<and>
    is_matrix (Suc (length documents)) n (queryVector0 # documentVectors0) \<and> 0 < n
    \<longrightarrow> rerank_similarities_v0 svc query documents
          = Inr (map (\<lambda>docVector. Some (dot queryVector0 docVector)) documentVectors0))"
proof (intro conjI impI)
  assume h: "initialize_result svc = None \<and>
    infer svc [prefix_query @ query] = Inr (queryVector # rest) \<and>
    infer svc (map (\<lambda>doc. prefix_document @ doc) documents) = Inr documentVectors \<and>
    list_all (\<lambda>docVector. length docVector = length queryVector) documentVectors"
  have "map (similarity queryVector) documentVectors
          = map (\<lambda>docVector.
                        if euclidean_norm queryVector * euclidean_norm docVector = 0 then None
                        else Some (cosine_similarity queryVector docVector))
                   documentVectors"
    using h by (intro map_cong refl similarity_spec) (simp add: list_all_iff)
  then show "rerank_similarities svc query documents
          = Inr (map (\<lambda>docVector.
                        if euclidean_norm queryVector * euclidean_norm docVector = 0 then None
                        else Some (cosine_similarity queryVector docVector))
                   documentVectors)"
    using h by (simp add: rerank_similarities_def)
next
  assume h: "initialize_result svc = None \<and>
    infer svc ((prefix_query @ query) # map (\<lambda>doc. prefix_document @ doc) documents)
      = Inr (queryVector0 # documentVectors0) \<and>
    is_matrix (Suc (length documents)) n (queryVector0 # documentVectors0) \<and> 0 < n"
  then have "matmul (queryVector0 # documentVectors0) (tensor_transpose (queryVector0 # documentVectors0))
         = map (\<lambda>row. map (\<lambda>r. dot row r) (queryVector0 # documentVectors0))
             (queryVector0 # documentVectors0)"
    using matmul_transpose_rows by blast
  then show "rerank_similarities_v0 svc query documents
          = Inr (map (\<lambda>docVector. Some (dot queryVector0 docVector)) documentVectors0)"
    using h by (simp add: rerank_similarities_v0_def o_def)
qed

theorem rerank_similarity_scores_witness:
  "(initialize_result demo_service = None \<and>
    infer demo_service [prefix_query @ ''q''] = Inr ([30, 1] # []) \<and>
    infer demo_service (map (\<lambda>doc. prefix_document @ doc) [''a'', ''bb''])
      = Inr [[21, 1], [22, 1]] \<and>
    list_all (\<lambda>docVector. length docVector = length [30, 1::real]) [[21, 1], [22, 1::real]])
   \<and> rerank_similarities demo_service ''q'' [''a'', ''bb'']
          = Inr (map (\<lambda>docVector.
                        if euclidean_norm [30, 1] * euclidean_norm docVector = 0 then None
                        else Some (cosine_similarity [30, 1] docVector))
                   [[21, 1], [22, 1]])
   \<and> (initialize_result demo_service = None \<and>
    infer demo_service ((prefix_query @ ''q'') # map (\<lambda>doc. prefix_document @ doc) [''a'', ''bb''])
      = Inr ([30, 1] # [[21, 1], [22, 1]]) \<and>
    is_matrix (Suc (length [''a'', ''bb''])) 2 ([30, 1] # [[21, 1], [22, 1]]) \<and> (0::nat) < 2)
   \<and> rerank_similarities_v0 demo_service ''q'' [''a'', ''bb'']
          = Inr (map (\<lambda>docVector. Some (dot [30, 1] docVector)) [[21, 1], [22, 1]])"
proof -
  have full: "initialize_result demo_service = None \<and>
    infer demo_service [prefix_query @ ''q''] = Inr ([30, 1] # []) \<and>
    infer demo_service (map (\<lambda>doc. prefix_document @ doc) [''a'', ''bb''])
      = Inr [[21, 1], [22, 1]] \<and>
    list_all (\<lambda>docVector. length docVector = length [30, 1::real]) [[21, 1], [22, 1::real]]"
    by (simp add: demo_service_def prefix_query_def prefix_document_def)
  have v0: "initialize_result demo_service = None \<and>
    infer demo_service ((prefix_query @ ''q'') # map (\<lambda>doc. prefix_document @ doc) [''a'', ''bb''])
      = Inr ([30, 1] # [[21, 1], [22, 1]]) \<and>
    is_matrix (Suc (length [''a'', ''bb''])) 2 ([30, 1] # [[21, 1], [22, 1]]) \<and> (0::nat) < 2"
    by (simp add: demo_service_def prefix_query_def prefix_document_def is_matrix_def)
  show ?thesis
    using rerank_similarity_scores [of demo_service "''q''" "[30, 1]" "[]" "[''a'', ''bb'']"
      "[[21, 1], [22, 1]]" "[30, 1]" "[[21, 1], [22, 1]]" 2] full v0
    by blast
qed

text \<open>
  Claim C1 as stated fails on \<open>src/server.ts\<close>: with an encoder whose rows are \<open>[2, 0]\<close>
  the score of the document is the dot product 4, while the cosine similarity of the two
  rows is 1.
\<close>

theorem rerank_v0_score_is_not_cosine:
  "infer flat_service ((prefix_query @ ''q'') # map (\<lambda>doc. prefix_document @ doc) [''d''])
     = Inr [[2, 0], [2, 0]]
   \<and> rerank_similarities_v0 flat_service ''q'' [''d''] = Inr [Some 4]
   \<and> cosine_similarity [2, 0] [2, 0] = 1
   \<and> rerank_similarities_v0 flat_service ''q'' [''d'']
       \<noteq> Inr [Some (cosine_similarity [2, 0] [2, 0])]"
  by (simp add: rerank_similarities_v0_def flat_service_def matmul_def tensor_transpose_def
        ncols_def cosine_similarity_def dot_def euclidean_norm_def)

text \<open>
  Claim C2. When the encoder returns one row per text, \<open>rerank\<close> returns a permutation of
  the indices \<open>0 ..< length documents\<close>: every index exactly once, nothing left out. This
  holds for the full service and for \<open>src/server.ts\<close> (there the rows need at least one
  column, a tensor without columns having no nested-list form).
\<close>

theorem rerank_permutation:
  "(initialize_result svc = None \<and>
    infer svc [prefix_query @ query] = Inr queryEmbedding \<and> queryEmbedding \<noteq> [] \<and>
    infer svc (map (\<lambda>doc. prefix_document @ doc) documents) = Inr documentVectors \<and>
    length documentVectors = length documents
    \<longrightarrow> (\<exists>r. rerank svc query documents = Inr r \<and>
           mset r = mset [0..<length documents] \<and> length r = length documents \<and>
           distinct r \<and> set r = {0..<length documents}))
   \<and>
   (initialize_result svc = None \<and>
    infer svc ((prefix_query @ query) # map (\<lambda>doc. prefix_document @ doc) documents)
      = Inr sentence_embedding \<and>
    is_matrix (Suc (length documents)) d sentence_embedding \<and> 0 < d
    \<longrightarrow> (\<exists>r. rerank_v0 svc query documents = Inr r \<and>
           mset r = mset [0..<length documents] \<and> length r = length documents \<and>
           distinct r \<and> set r = {0..<length documents}))"
proof (intro conjI impI)
  assume h: "initialize_result svc = None \<and>
    infer svc [prefix_query @ query] = Inr queryEmbedding \<and> queryEmbedding \<noteq> [] \<and>
    infer svc (map (\<lambda>doc. prefix_document @ doc) documents) = Inr documentVectors \<and>
    length documentVectors = length documents"
  then obtain qv rest where qe: "queryEmbedding = qv # rest"
    by (cases queryEmbedding) auto
  have "rerank svc query documents
          = Inr (ranking_indices (map (similarity qv) documentVectors))"
    using h by (simp add: rerank_def rerank_similarities_def qe)
  moreover have "length (map (similarity qv) documentVectors) = length documents"
    using h by simp
  ultimately show "\<exists>r. rerank svc query documents = Inr r \<and>
           mset r = mset [0..<length documents] \<and> length r = length documents \<and>
           distinct r \<and> set r = {0..<length documents}"
    using ranking_indices_perm by blast
next
  assume h: "initialize_result svc = None \<and>
    infer svc ((prefix_query @ query) # map (\<lambda>doc. prefix_document @ doc) documents)
      = Inr sentence_embedding \<and>
    is_matrix (Suc (length documents)) d sentence_embedding \<and> 0 < d"
  then obtain row0 rest where
    m: "matmul sentence_embedding (tensor_transpose sentence_embedding) = row0 # rest"
    and len: "length row0 = Suc (length documents)"
    using matmul_row0 by blast
  have "rerank_v0 svc query documents = Inr (ranking_indices (map Some (drop 1 row0)))"
    using h by (simp add: rerank_v0_def rerank_similarities_v0_def m)
  moreover have "length (map Some (drop 1 row0)) = length documents"
    using len by simp
  ultimately show "\<exists>r. rerank_v0 svc query documents = Inr r \<and>
           mset r = mset [0..<length documents] \<and> length r = length documents \<and>
           distinct r \<and> set r = {0..<length documents}"
    using ranking_indices_perm by blast
qed

theorem rerank_permutation_witness:
  "(initialize_result demo_service = None \<and>
    infer demo_service [prefix_query @ ''q''] = Inr [[30, 1]] \<and> [[30, 1::real]] \<noteq> [] \<and>
    infer demo_service (map (\<lambda>doc. prefix_document @ doc) [''a'', ''bb''])
      = Inr [[21, 1], [22, 1]] \<and>
    length [[21, 1], [22, 1::real]] = length [''a'', ''bb''])
   \<and> (\<exists>r. rerank demo_service ''q'' [''a'', ''bb''] = Inr r \<and>
          mset r = mset [0..<length [''a'', ''bb'']])
   \<and> (infer demo_service ((prefix_query @ ''q'') # map (\<lambda>doc. prefix_document @ doc) [''a'', ''bb''])
      = Inr [[30, 1], [21, 1], [22, 1]] \<and>
      is_matrix (Suc (length [''a'', ''bb''])) 2 [[30, 1], [21, 1], [22, 1]] \<and> (0::nat) < 2)
   \<and> (\<exists>r. rerank_v0 demo_service ''q'' [''a'', ''bb''] = Inr r \<and>
          mset r = mset [0..<length [''a'', ''bb'']])"
proof -
  have full: "initialize_result demo_service = None \<and>
    infer demo_service [prefix_query @ ''q''] = Inr [[30, 1]] \<and> [[30, 1::real]] \<noteq> [] \<and>
    infer demo_service (map (\<lambda>doc. prefix_document @ doc) [''a'', ''bb''])
      = Inr [[21, 1], [22, 1]] \<and>
    length [[21, 1], [22, 1::real]] = length [''a'', ''bb'']"
    by (simp add: demo_service_def prefix_query_def prefix_document_def)
  have v0: "initialize_result demo_service = None \<and>
     infer demo_service ((prefix_query @ ''q'') # map (\<lambda>doc. prefix_document @ doc) [''a'', ''bb''])
      = Inr [[30, 1], [21, 1], [22, 1]] \<and>
      is_matrix (Suc (length [''a'', ''bb''])) 2 [[30, 1], [21, 1], [22, 1]] \<and> (0::nat) < 2"
    by (simp add: demo_service_def prefix_query_def prefix_document_def is_matrix_def)
  show ?thesis
    using rerank_permutation [of demo_service "''q''" "[[30, 1]]" "[''a'', ''bb'']"
      "[[21, 1], [22, 1]]" "[[30, 1], [21, 1], [22, 1]]" 2] full v0
    by blast
qed

lemma rerank_similarities_v0_numbers:
  "rerank_similarities_v0 svc query documents = Inr sims \<Longrightarrow> list_all (\<lambda>s. s \<noteq> None) sims"
  by (auto simp: rerank_similarities_v0_def Let_def list_all_iff
           split: option.splits sum.splits list.splits)

text \<open>
  Claim C5, as amended. When no similarity score of the call is \<open>NaN\<close>, documents with
  exactly equal scores keep their input order in the ranking: for every score \<open>s\<close>, the
  indices of score \<open>s\<close> appear in the output in increasing order. In \<open>src/server.ts\<close>
  the scores are dot products, never \<open>NaN\<close>, and this holds for every call.
\<close>

theorem rerank_stable:
  "(rerank_similarities svc query documents = Inr similarities \<and>
    list_all (\<lambda>s. s \<noteq> None) similarities \<longrightarrow>
      (\<exists>r. rerank svc query documents = Inr r \<and>
           (\<forall>s. filter (\<lambda>i. similarities ! i = Some s) r
                 = filter (\<lambda>i. similarities ! i = Some s) [0..<length similarities])))
   \<and>
   (rerank_similarities_v0 svc query documents = Inr similarities0 \<longrightarrow>
      (\<exists>r. rerank_v0 svc query documents = Inr r \<and>
           (\<forall>s. filter (\<lambda>i. similarities0 ! i = Some s) r
                 = filter (\<lambda>i. similarities0 ! i = Some s) [0..<length similarities0])))"
proof (rule conjI; rule impI)
  assume "rerank_similarities svc query documents = Inr similarities \<and>
    list_all (\<lambda>s. s \<noteq> None) similarities"
  then show "\<exists>r. rerank svc query documents = Inr r \<and>
           (\<forall>s. filter (\<lambda>i. similarities ! i = Some s) r
                 = filter (\<lambda>i. similarities ! i = Some s) [0..<length similarities])"
    by (simp add: rerank_def ranking_indices_stable)
next
  assume h: "rerank_similarities_v0 svc query documents = Inr similarities0"
  then have "list_all (\<lambda>s. s \<noteq> None) similarities0"
    by (rule rerank_similarities_v0_numbers)
  then show "\<exists>r. rerank_v0 svc query documents = Inr r \<and>
           (\<forall>s. filter (\<lambda>i. similarities0 ! i = Some s) r
                 = filter (\<lambda>i. similarities0 ! i = Some s) [0..<length similarities0])"
    using h by (simp add: rerank_v0_def ranking_indices_stable)
qed

theorem rerank_stable_witness:
  "rerank_similarities flat_service ''q'' [''a'', ''b''] = Inr [Some 1, Some 1]
   \<and> list_all (\<lambda>s. s \<noteq> None) [Some (1::real), Some 1]
   \<and> (\<exists>r. rerank flat_service ''q'' [''a'', ''b''] = Inr r \<and>
           (\<forall>s. filter (\<lambda>i. [Some (1::real), Some 1] ! i = Some s) r
                 = filter (\<lambda>i. [Some (1::real), Some 1] ! i = Some s)
                     [0..<length [Some (1::real), Some 1]]))
   \<and> rerank_similarities_v0 flat_service ''q'' [''a'', ''b''] = Inr [Some 4, Some 4]
   \<and> (\<exists>r. rerank_v0 flat_service ''q'' [''a'', ''b''] = Inr r \<and>
           (\<forall>s. filter (\<lambda>i. [Some (4::real), Some 4] ! i = Some s) r
                 = filter (\<lambda>i. [Some (4::real), Some 4] ! i = Some s)
                     [0..<length [Some (4::real), Some 4]]))"
proof -
  have full: "rerank_similarities flat_service ''q'' [''a'', ''b''] = Inr [Some 1, Some 1]
              \<and> list_all (\<lambda>s. s \<noteq> None) [Some (1::real), Some 1]"
    by (simp add: rerank_similarities_def flat_service_def flat_sim)
  have v0: "rerank_similarities_v0 flat_service ''q'' [''a'', ''b''] = Inr [Some 4, Some 4]"
    by (simp add: rerank_similarities_v0_def flat_service_def matmul_def tensor_transpose_def
          ncols_def)
  show ?thesis
    using rerank_stable [of flat_service "''q''" "[''a'', ''b'']" "[Some 1, Some 1]"
      "[Some 4, Some 4]"] full v0
    by blast
qed

lemma degenerate_similarities:
  "similarity [1, 0] [1, 0] = Some 1" "similarity [1, 0] [0, 1] = Some 0"
  "similarity [1, 0] [0, 0] = None"
  by (simp_all add: similarity_spec euclidean_norm_def cosine_similarity_def dot_def)

lemma ranking_beside_nan:
  "ranking_indices [Some 1, Some 1, Some 0, Some 1, None, Some 1, Some 1] = [0, 1, 3, 6, 2, 4, 5]"
  by code_simp

text \<open>
  Claim C5 as stated fails in the full service when another document's score is \<open>NaN\<close>
  (here a zero row from the encoder): the comparator \<open>b.score - a.score\<close> is then
  inconsistent, and the binary insertion puts document 6 in front of document 5 although
  both score exactly 1.
\<close>

theorem rerank_reorders_ties_beside_nan:
  "rerank_similarities degenerate_service ''q'' [''a'', ''b'', ''far'', ''c'', ''blank'', ''d'', ''e'']
     = Inr [Some 1, Some 1, Some 0, Some 1, None, Some 1, Some 1]
   \<and> rerank degenerate_service ''q'' [''a'', ''b'', ''far'', ''c'', ''blank'', ''d'', ''e'']
     = Inr [0, 1, 3, 6, 2, 4, 5]"
proof -
  have s: "rerank_similarities degenerate_service ''q''
             [''a'', ''b'', ''far'', ''c'', ''blank'', ''d'', ''e'']
           = Inr [Some 1, Some 1, Some 0, Some 1, None, Some 1, Some 1]"
    by (simp add: rerank_similarities_def degenerate_service_def prefix_document_def
          degenerate_similarities)
  show ?thesis
    using s by (simp add: rerank_def ranking_beside_nan)
qed

section \<open>Properties of the embedding pipeline\<close>

lemma getEmbeddings_reduce:
  assumes "initialize_result svc = None"
    and "infer svc (map (\<lambda>text. prefix_document @ text) texts) = Inr embeddings"
    and "1 \<le> d" and "d < MAX_DIMENSIONS"
  shows "getEmbeddings svc texts (Some d)
           = ([map (\<lambda>text. prefix_document @ text) texts],
              Inr (map (reduce_row (nat d)) embeddings))"
  using assms
  by (simp add: getEmbeddings_def truthy_def normalize_def slice_cols_def layer_norm_def
        reduce_row_def o_def)

lemma getEmbeddings_identity:
  assumes "initialize_result svc = None"
    and "infer svc (map (\<lambda>text. prefix_document @ text) texts) = Inr embeddings"
    and "d = None \<or> d = Some 0 \<or> (\<exists>n. d = Some n \<and> MAX_DIMENSIONS \<le> n)"
  shows "getEmbeddings svc texts d
           = ([map (\<lambda>text. prefix_document @ text) texts], Inr embeddings)"
  using assms by (auto simp: getEmbeddings_def truthy_def)

lemma sum_squares_zero_iff: "(\<Sum>a\<leftarrow>v. a * a) = (0::real) \<longleftrightarrow> (\<forall>a\<in>set v. a = 0)"
proof (induction v)
  case Nil
  show ?case by simp
next
  case (Cons x xs)
  have "0 \<le> x * x" by simp
  moreover have "0 \<le> (\<Sum>a\<leftarrow>xs. a * a)" by (rule sum_list_nonneg) auto
  ultimately have "x * x + (\<Sum>a\<leftarrow>xs. a * a) = 0 \<longleftrightarrow> x * x = 0 \<and> (\<Sum>a\<leftarrow>xs. a * a) = 0"
    by (rule add_nonneg_eq_0_iff)
  then show ?case using Cons by simp
qed

lemma euclidean_norm_pos:
  assumes "\<exists>a\<in>set v. a \<noteq> 0"
  shows "0 < euclidean_norm v"
proof -
  have "0 \<le> (\<Sum>a\<leftarrow>v. a * a)" by (rule sum_list_nonneg) auto
  moreover have "(\<Sum>a\<leftarrow>v. a * a) \<noteq> 0" using assms sum_squares_zero_iff by blast
  ultimately show ?thesis by (simp add: euclidean_norm_def)
qed

lemma normalize_row_unit:
  assumes "\<exists>a\<in>set v. a \<noteq> 0"
  shows "euclidean_norm (normalize_row v) = 1"
proof -
  let ?n = "euclidean_norm v"
  have pos: "0 < ?n" by (rule euclidean_norm_pos [OF assms])
  have sq: "?n * ?n = (\<Sum>a\<leftarrow>v. a * a)"
  proof -
    have "0 \<le> (\<Sum>a\<leftarrow>v. a * a)" by (rule sum_list_nonneg) auto
    then show ?thesis by (simp add: euclidean_norm_def)
  qed
  have "(\<Sum>a\<leftarrow>map (\<lambda>x. x / ?n) v. a * a) = (\<Sum>a\<leftarrow>v. (a * a) * (1 / (?n * ?n)))"
    by (simp add: o_def)
  also have "\<dots> = (\<Sum>a\<leftarrow>v. a * a) * (1 / (?n * ?n))"
    by (rule sum_list_mult_const)
  also have "\<dots> = 1"
  proof -
    have "(\<Sum>a\<leftarrow>v. a * a) \<noteq> 0" using assms sum_squares_zero_iff by blast
    then show ?thesis using sq by simp
  qed
  finally show ?thesis by (simp add: normalize_row_def euclidean_norm_def)
qed

lemma std_nonneg: "0 \<le> std row"
proof -
  have "0 \<le> (\<Sum>x\<leftarrow>row. (x - mean row) * (x - mean row))"
    by (rule sum_list_nonneg) auto
  then show ?thesis by (simp add: std_def)
qed

lemma layer_norm_row_nth:
  "k < length row \<Longrightarrow> layer_norm_row row ! k = (row ! k - mean row) / (std row + layer_norm_eps)"
  by (simp add: layer_norm_row_def)

lemma reduce_row_unit:
  assumes "n \<le> length row" and "\<exists>k<n. row ! k \<noteq> mean row"
  shows "length (reduce_row n row) = n \<and> euclidean_norm (reduce_row n row) = 1"
proof -
  from assms(2) obtain k where k: "k < n" and ne: "row ! k \<noteq> mean row" by blast
  have pos: "0 < std row + layer_norm_eps"
    using std_nonneg [of row] by (simp add: layer_norm_eps_def add_nonneg_pos)
  let ?v = "take n (layer_norm_row row)"
  have len: "length ?v = n" using assms(1) by (simp add: layer_norm_row_def)
  have "?v ! k = (row ! k - mean row) / (std row + layer_norm_eps)"
    using k assms(1) by (simp add: layer_norm_row_nth)
  then have "?v ! k \<noteq> 0" using ne pos by simp
  moreover have "?v ! k \<in> set ?v" using k len by (metis nth_mem)
  ultimately have "\<exists>a\<in>set ?v. a \<noteq> 0" by blast
  then have "euclidean_norm (normalize_row ?v) = 1" by (rule normalize_row_unit)
  moreover have "length (normalize_row ?v) = n" using len by (simp add: normalize_row_def)
  ultimately show ?thesis by (simp add: reduce_row_def)
qed

lemma normalize_row_single: "normalize_row [c] = [c / \<bar>c\<bar>]"
  by (simp add: normalize_row_def euclidean_norm_def)

text \<open>
  Truncating without the layer normalisation is a different algorithm: on the row
  \<open>[1, 3]\<close> and one target dimension the two results have opposite sign.
\<close>

lemma naive_truncation_differs: "reduce_row 1 [1, 3] = [-1] \<and> naive_truncation 1 [1, 3] = [1]"
proof -
  have "layer_norm_row [1, 3] = [- (1 / (1 + layer_norm_eps)), 1 / (1 + layer_norm_eps)]"
    by (simp add: layer_norm_row_def mean_def std_def)
  then have "reduce_row 1 [1, 3] = [- (1 / (1 + layer_norm_eps)) / \<bar>- (1 / (1 + layer_norm_eps))\<bar>]"
    by (simp add: reduce_row_def normalize_row_single)
  also have "\<dots> = [-1]"
    by (simp add: layer_norm_eps_def)
  finally show ?thesis
    by (simp add: naive_truncation_def normalize_row_single)
qed

section \<open>Claims about the dimensionality reduction\<close>

text \<open>
  Claim C3. For \<open>1 \<le> targetDim < 768\<close> the vectors returned by \<open>getEmbeddings\<close> are
  computed in three steps in this order: every row is layer-normalised with the mean and
  the standard deviation of the whole native row, then cut to its first \<open>targetDim\<close>
  components, then divided by the Euclidean norm of the cut row.
\<close>

theorem getEmbeddings_mrl_three_steps:
  "initialize_result svc = None \<and>
   infer svc (map (\<lambda>text. prefix_document @ text) texts) = Inr embeddings \<and>
   1 \<le> targetDim \<and> targetDim < MAX_DIMENSIONS
   \<longrightarrow> snd (getEmbeddings svc texts (Some targetDim))
         = Inr (map (\<lambda>row. normalize_row
                              (take (nat targetDim)
                                 (map (\<lambda>x. (x - mean row) / (std row + layer_norm_eps)) row)))
                  embeddings)"
  by (simp add: getEmbeddings_reduce reduce_row_def layer_norm_row_def)

theorem getEmbeddings_mrl_three_steps_witness:
  "(initialize_result demo_service = None \<and>
   infer demo_service (map (\<lambda>text. prefix_document @ text) [''hello'']) = Inr [[25, 1]] \<and>
   (1::int) \<le> 1 \<and> 1 < MAX_DIMENSIONS)
   \<and> snd (getEmbeddings demo_service [''hello''] (Some 1))
         = Inr (map (\<lambda>row. normalize_row
                              (take (nat 1)
                                 (map (\<lambda>x. (x - mean row) / (std row + layer_norm_eps)) row)))
                  [[25, 1]])"
proof -
  have h: "initialize_result demo_service = None \<and>
   infer demo_service (map (\<lambda>text. prefix_document @ text) [''hello'']) = Inr [[25, 1]] \<and>
   (1::int) \<le> 1 \<and> 1 < MAX_DIMENSIONS"
    by (simp add: demo_service_def prefix_document_def MAX_DIMENSIONS_def)
  show ?thesis
    using getEmbeddings_mrl_three_steps [of demo_service "[''hello'']" "[[25, 1]]" 1] h
    by blast
qed

text \<open>
  Claim C4, as amended. For \<open>1 \<le> targetDim < 768\<close>, a row of at least \<open>targetDim\<close>
  components, one of the first \<open>targetDim\<close> of which differs from the row's mean, is
  returned with exactly \<open>targetDim\<close> components and Euclidean norm 1 (in exact
  arithmetic). At \<open>targetDim = 768\<close> the rows of the encoder are returned unchanged.
\<close>

theorem reducer_length_and_norm:
  "(initialize_result svc = None \<and>
    infer svc (map (\<lambda>text. prefix_document @ text) texts) = Inr embeddings \<and>
    1 \<le> targetDim \<and> targetDim < MAX_DIMENSIONS \<and>
    i < length embeddings \<and> nat targetDim \<le> length (embeddings ! i) \<and>
    (\<exists>k<nat targetDim. embeddings ! i ! k \<noteq> mean (embeddings ! i))
    \<longrightarrow> (\<exists>reduced. snd (getEmbeddings svc texts (Some targetDim)) = Inr reduced \<and>
           length reduced = length embeddings \<and>
           length (reduced ! i) = nat targetDim \<and> euclidean_norm (reduced ! i) = 1))
   \<and>
   (initialize_result svc = None \<and>
    infer svc (map (\<lambda>text. prefix_document @ text) texts) = Inr embeddings
    \<longrightarrow> snd (getEmbeddings svc texts (Some MAX_DIMENSIONS)) = Inr embeddings)"
proof (intro conjI impI)
  assume h: "initialize_result svc = None \<and>
    infer svc (map (\<lambda>text. prefix_document @ text) texts) = Inr embeddings \<and>
    1 \<le> targetDim \<and> targetDim < MAX_DIMENSIONS \<and>
    i < length embeddings \<and> nat targetDim \<le> length (embeddings ! i) \<and>
    (\<exists>k<nat targetDim. embeddings ! i ! k \<noteq> mean (embeddings ! i))"
  let ?reduced = "map (reduce_row (nat targetDim)) embeddings"
  have "snd (getEmbeddings svc texts (Some targetDim)) = Inr ?reduced"
    using h by (simp add: getEmbeddings_reduce)
  moreover have "length ?reduced = length embeddings" by simp
  moreover have "length (?reduced ! i) = nat targetDim \<and> euclidean_norm (?reduced ! i) = 1"
    using h reduce_row_unit [of "nat targetDim" "embeddings ! i"] by simp
  ultimately show "\<exists>reduced. snd (getEmbeddings svc texts (Some targetDim)) = Inr reduced \<and>
           length reduced = length embeddings \<and>
           length (reduced ! i) = nat targetDim \<and> euclidean_norm (reduced ! i) = 1"
    by blast
next
  assume h: "initialize_result svc = None \<and>
    infer svc (map (\<lambda>text. prefix_document @ text) texts) = Inr embeddings"
  then show "snd (getEmbeddings svc texts (Some MAX_DIMENSIONS)) = Inr embeddings"
    by (simp add: getEmbeddings_identity)
qed

theorem reducer_length_and_norm_witness:
  "(initialize_result demo_service = None \<and>
    infer demo_service (map (\<lambda>text. prefix_document @ text) [''hello'']) = Inr [[25, 1]] \<and>
    (1::int) \<le> 1 \<and> 1 < MAX_DIMENSIONS \<and>
    (0::nat) < length [[25, 1::real]] \<and> nat 1 \<le> length ([[25, 1::real]] ! 0) \<and>
    (\<exists>k<nat 1. [[25, 1]] ! 0 ! k \<noteq> mean ([[25, 1]] ! 0)))
   \<and> (\<exists>reduced. snd (getEmbeddings demo_service [''hello''] (Some 1)) = Inr reduced \<and>
           length reduced = length [[25, 1::real]] \<and>
           length (reduced ! 0) = nat 1 \<and> euclidean_norm (reduced ! 0) = 1)
   \<and> snd (getEmbeddings demo_service [''hello''] (Some MAX_DIMENSIONS)) = Inr [[25, 1]]"
proof -
  have h: "initialize_result demo_service = None \<and>
    infer demo_service (map (\<lambda>text. prefix_document @ text) [''hello'']) = Inr [[25, 1]] \<and>
    (1::int) \<le> 1 \<and> 1 < MAX_DIMENSIONS \<and>
    (0::nat) < length [[25, 1::real]] \<and> nat 1 \<le> length ([[25, 1::real]] ! 0) \<and>
    (\<exists>k<nat 1. [[25, 1]] ! 0 ! k \<noteq> mean ([[25, 1]] ! 0))"
    by (simp add: demo_service_def prefix_document_def MAX_DIMENSIONS_def mean_def)
  show ?thesis
    using reducer_length_and_norm [of demo_service "[''hello'']" "[[25, 1]]" 1 0] h
    by blast
qed

text \<open>
  Claim C4 as stated fails at \<open>targetDim = 768\<close>: the reduction is skipped, so a row of
  norm 2 from the encoder is returned with norm 2.
\<close>

theorem native_dimension_norm_not_unit:
  "snd (getEmbeddings wide_service [''hello''] (Some 768)) = Inr [2 # replicate 767 0]
   \<and> length (2 # replicate 767 (0::real)) = 768
   \<and> euclidean_norm (2 # replicate 767 0) = 2"
  by (simp add: getEmbeddings_def wide_service_def truthy_def MAX_DIMENSIONS_def
        euclidean_norm_def sum_list_replicate)

section \<open>Claims about the HTTP handlers\<close>

lemma demo_authenticated: "authenticateApiKey (Some ''secret'') (authorization demo_request) = None"
  by (simp add: authenticateApiKey_def demo_request_def falsy_string_def)

lemma v1_embeddings_cong:
  assumes "authorization r1 = authorization r2"
    and "falsy_input (input r1) = falsy_input (input r2)"
    and "as_texts (the (input r1)) = as_texts (the (input r2))"
    and "model r1 = model r2" and "dimensions r1 = dimensions r2"
    and "encoding_format r1 = encoding_format r2"
  shows "v1_embeddings API_KEY svc r1 = v1_embeddings API_KEY svc r2"
  unfolding v1_embeddings_def assms by (rule refl)

lemma embed_cong:
  assumes "authorization r1 = authorization r2"
    and "falsy_input (input r1) = falsy_input (input r2)"
    and "as_texts (the (input r1)) = as_texts (the (input r2))"
    and "dimensions r1 = dimensions r2"
  shows "embed API_KEY svc r1 = embed API_KEY svc r2"
  unfolding embed_def assms by (rule refl)

lemma embed_v0_cong:
  assumes "falsy_input (input r1) = falsy_input (input r2)"
    and "as_texts (the (input r1)) = as_texts (the (input r2))"
  shows "embed_v0 svc r1 = embed_v0 svc r2"
  unfolding embed_v0_def assms by (rule refl)

lemma getEmbeddings_single:
  assumes "initialize_result svc = None" and "infer svc [prefix_document @ s] = Inr [row]"
  shows "\<exists>e. getEmbeddings svc [s] d = ([[prefix_document @ s]], Inr [e])"
  using assms
  by (simp add: getEmbeddings_def normalize_def slice_cols_def layer_norm_def)

text \<open>
  An authenticated request to \<open>/v1/embeddings\<close> whose \<open>dimensions\<close> is a non-zero
  integer outside \<open>[1, 768]\<close> is answered with status 400 before any inference call.
\<close>

lemma v1_embeddings_rejects_nonzero_out_of_range:
  assumes "authenticateApiKey API_KEY (authorization req) = None"
    and "\<not> falsy_input (input req)" and "model req = Some MODEL_ID"
    and "dimensions req = Some n" and "n \<noteq> 0" and "n < 1 \<or> 768 < n"
  shows "fst (v1_embeddings API_KEY svc req) = [] \<and> status (snd (v1_embeddings API_KEY svc req)) = 400"
  using assms
  by (auto simp: v1_embeddings_def truthy_def falsy_string_def MODEL_ID_def MAX_DIMENSIONS_def)

text \<open>
  Claim C7 fails at \<open>dimensions = 0\<close>. The guard \<open>if (dimensions)\<close> in front of the
  range check treats 0 as absent, so the request is not rejected: the handler calls the
  encoder and answers 200 with the unreduced vector, although its own error message gives
  the range as 1 to 768.
\<close>

theorem v1_embeddings_accepts_dimensions_zero:
  "v1_embeddings (Some ''secret'') demo_service (demo_request\<lparr>dimensions := Some 0\<rparr>)
     = ([[prefix_document @ ''hello'']],
        Response 200 (EmbeddingsResponse [EmbeddingData 0 [25, 1]] ''embeddinggemma-300m'' 2 2))"
  by (simp add: v1_embeddings_def demo_request_def authenticateApiKey_def falsy_string_def
        falsy_input_def MODEL_ID_def truthy_def as_texts_def getEmbeddings_def demo_service_def
        prefix_document_def embeddingData_def getTotalTokens_def countTokens_def)

text \<open>
  Claim C9. The legacy \<open>/embed\<close> handler does not validate \<open>dimensions\<close>: for an
  authenticated request with a non-empty input and a working encoder, a \<open>dimensions\<close>
  that is absent, zero or at least 768 yields status 200 with the rows of the encoder
  unchanged.
\<close>

theorem embed_no_dimension_validation:
  "authenticateApiKey API_KEY (authorization req) = None \<and>
   \<not> falsy_input (input req) \<and> as_texts (the (input req)) \<noteq> [] \<and>
   initialize_result svc = None \<and>
   infer svc (map (\<lambda>text. prefix_document @ text) (as_texts (the (input req)))) = Inr embeddings \<and>
   (dimensions req = None \<or> dimensions req = Some 0 \<or> (\<exists>n. dimensions req = Some n \<and> 768 \<le> n))
   \<longrightarrow> embed API_KEY svc req
         = ([map (\<lambda>text. prefix_document @ text) (as_texts (the (input req)))],
            Response 200 (EmbedResponse embeddings (length embeddings)))"
proof
  assume h: "authenticateApiKey API_KEY (authorization req) = None \<and>
   \<not> falsy_input (input req) \<and> as_texts (the (input req)) \<noteq> [] \<and>
   initialize_result svc = None \<and>
   infer svc (map (\<lambda>text. prefix_document @ text) (as_texts (the (input req)))) = Inr embeddings \<and>
   (dimensions req = None \<or> dimensions req = Some 0 \<or> (\<exists>n. dimensions req = Some n \<and> 768 \<le> n))"
  then have "getEmbeddings svc (as_texts (the (input req))) (dimensions req)
          = ([map (\<lambda>text. prefix_document @ text) (as_texts (the (input req)))], Inr embeddings)"
    by (intro getEmbeddings_identity) (auto simp: MAX_DIMENSIONS_def)
  then show "embed API_KEY svc req
         = ([map (\<lambda>text. prefix_document @ text) (as_texts (the (input req)))],
            Response 200 (EmbedResponse embeddings (length embeddings)))"
    using h by (simp add: embed_def)
qed

theorem embed_no_dimension_validation_witness:
  "(authenticateApiKey (Some ''secret'') (authorization (demo_request\<lparr>dimensions := Some 1000\<rparr>)) = None \<and>
   \<not> falsy_input (input (demo_request\<lparr>dimensions := Some 1000\<rparr>)) \<and>
   as_texts (the (input (demo_request\<lparr>dimensions := Some 1000\<rparr>))) \<noteq> [] \<and>
   initialize_result demo_service = None \<and>
   infer demo_service (map (\<lambda>text. prefix_document @ text)
                         (as_texts (the (input (demo_request\<lparr>dimensions := Some 1000\<rparr>)))))
     = Inr [[25, 1]] \<and>
   (dimensions (demo_request\<lparr>dimensions := Some 1000\<rparr>) = None \<or>
    dimensions (demo_request\<lparr>dimensions := Some 1000\<rparr>) = Some 0 \<or>
    (\<exists>n. dimensions (demo_request\<lparr>dimensions := Some 1000\<rparr>) = Some n \<and> 768 \<le> n)))
   \<and> embed (Some ''secret'') demo_service (demo_request\<lparr>dimensions := Some 1000\<rparr>)
         = ([map (\<lambda>text. prefix_document @ text)
               (as_texts (the (input (demo_request\<lparr>dimensions := Some 1000\<rparr>))))],
            Response 200 (EmbedResponse [[25, 1]] (length [[25, 1::real]])))"
proof -
  have h: "authenticateApiKey (Some ''secret'') (authorization (demo_request\<lparr>dimensions := Some 1000\<rparr>)) = None \<and>
   \<not> falsy_input (input (demo_request\<lparr>dimensions := Some 1000\<rparr>)) \<and>
   as_texts (the (input (demo_request\<lparr>dimensions := Some 1000\<rparr>))) \<noteq> [] \<and>
   initialize_result demo_service = None \<and>
   infer demo_service (map (\<lambda>text. prefix_document @ text)
                         (as_texts (the (input (demo_request\<lparr>dimensions := Some 1000\<rparr>)))))
     = Inr [[25, 1]] \<and>
   (dimensions (demo_request\<lparr>dimensions := Some 1000\<rparr>) = None \<or>
    dimensions (demo_request\<lparr>dimensions := Some 1000\<rparr>) = Some 0 \<or>
    (\<exists>n. dimensions (demo_request\<lparr>dimensions := Some 1000\<rparr>) = Some n \<and> 768 \<le> n))"
    by (simp add: demo_request_def authenticateApiKey_def falsy_string_def falsy_input_def
          as_texts_def demo_service_def prefix_document_def)
  show ?thesis
    using embed_no_dimension_validation [of "Some ''secret''"
        "demo_request\<lparr>dimensions := Some 1000\<rparr>" demo_service "[[25, 1]]"] h
    by blast
qed

text \<open>
  Claim C10, as amended. For every non-empty string \<open>s\<close>, a request with input \<open>s\<close>
  gets the same result as the request with input \<open>[s]\<close>, on \<open>/v1/embeddings\<close>, on
  \<open>/embed\<close> and on the \<open>/embed\<close> of \<open>src/server.ts\<close>. When the request passes
  validation and the encoder returns one row, \<open>/v1/embeddings\<close> answers with exactly one
  embedding, of index 0, and both \<open>/embed\<close> handlers with one vector and \<open>count\<close> 1.
\<close>

theorem single_string_is_one_element_batch:
  "(s \<noteq> [] \<longrightarrow>
      v1_embeddings API_KEY svc (req\<lparr>input := Some (InputString s)\<rparr>)
        = v1_embeddings API_KEY svc (req\<lparr>input := Some (InputArray [s])\<rparr>)
      \<and> embed API_KEY svc (req\<lparr>input := Some (InputString s)\<rparr>)
        = embed API_KEY svc (req\<lparr>input := Some (InputArray [s])\<rparr>)
      \<and> embed_v0 svc (req\<lparr>input := Some (InputString s)\<rparr>)
        = embed_v0 svc (req\<lparr>input := Some (InputArray [s])\<rparr>))
   \<and>
   (s \<noteq> [] \<and> authenticateApiKey API_KEY (authorization req) = None \<and>
    model req = Some MODEL_ID \<and>
    \<not> (truthy (dimensions req) \<and> (the (dimensions req) < 1 \<or> the (dimensions req) > MAX_DIMENSIONS)) \<and>
    (encoding_format req = None \<or> encoding_format req = Some ''float'') \<and>
    initialize_result svc = None \<and> infer svc [prefix_document @ s] = Inr [row]
    \<longrightarrow> (\<exists>e. v1_embeddings API_KEY svc (req\<lparr>input := Some (InputString s)\<rparr>)
               = ([[prefix_document @ s]],
                  Response 200 (EmbeddingsResponse [EmbeddingData 0 e] MODEL_ID
                                  (countTokens s) (countTokens s)))
             \<and> embed API_KEY svc (req\<lparr>input := Some (InputString s)\<rparr>)
               = ([[prefix_document @ s]], Response 200 (EmbedResponse [e] 1)))
        \<and> embed_v0 svc (req\<lparr>input := Some (InputString s)\<rparr>)
             = ([[prefix_document @ s]], Response 200 (EmbedResponse [row] 1)))"
proof (intro conjI impI)
  assume "s \<noteq> []"
  then show "v1_embeddings API_KEY svc (req\<lparr>input := Some (InputString s)\<rparr>)
        = v1_embeddings API_KEY svc (req\<lparr>input := Some (InputArray [s])\<rparr>)"
    by (intro v1_embeddings_cong) (simp_all add: falsy_input_def as_texts_def)
next
  assume "s \<noteq> []"
  then show "embed API_KEY svc (req\<lparr>input := Some (InputString s)\<rparr>)
        = embed API_KEY svc (req\<lparr>input := Some (InputArray [s])\<rparr>)"
    by (intro embed_cong) (simp_all add: falsy_input_def as_texts_def)
next
  assume "s \<noteq> []"
  then show "embed_v0 svc (req\<lparr>input := Some (InputString s)\<rparr>)
        = embed_v0 svc (req\<lparr>input := Some (InputArray [s])\<rparr>)"
    by (intro embed_v0_cong) (simp_all add: falsy_input_def as_texts_def)
next
  assume h: "s \<noteq> [] \<and> authenticateApiKey API_KEY (authorization req) = None \<and>
    model req = Some MODEL_ID \<and>
    \<not> (truthy (dimensions req) \<and> (the (dimensions req) < 1 \<or> the (dimensions req) > MAX_DIMENSIONS)) \<and>
    (encoding_format req = None \<or> encoding_format req = Some ''float'') \<and>
    initialize_result svc = None \<and> infer svc [prefix_document @ s] = Inr [row]"
  then obtain e where e: "getEmbeddings svc [s] (dimensions req) = ([[prefix_document @ s]], Inr [e])"
    using getEmbeddings_single by blast
  have enc: "(case encoding_format req of None \<Rightarrow> ''float'' | Some f \<Rightarrow> f) = ''float''"
    using h by auto
  have model: "\<not> falsy_string (model req)" "the (model req) = MODEL_ID"
    using h by (simp_all add: falsy_string_def MODEL_ID_def)
  have "v1_embeddings API_KEY svc (req\<lparr>input := Some (InputString s)\<rparr>)
               = ([[prefix_document @ s]],
                  Response 200 (EmbeddingsResponse [EmbeddingData 0 e] MODEL_ID
                                  (countTokens s) (countTokens s)))"
    using h enc model e
    by (simp add: v1_embeddings_def falsy_input_def as_texts_def embeddingData_def
          getTotalTokens_def Let_def)
  moreover have "embed API_KEY svc (req\<lparr>input := Some (InputString s)\<rparr>)
               = ([[prefix_document @ s]], Response 200 (EmbedResponse [e] 1))"
    using h e by (simp add: embed_def falsy_input_def as_texts_def)
  ultimately show "\<exists>e. v1_embeddings API_KEY svc (req\<lparr>input := Some (InputString s)\<rparr>)
               = ([[prefix_document @ s]],
                  Response 200 (EmbeddingsResponse [EmbeddingData 0 e] MODEL_ID
                                  (countTokens s) (countTokens s)))
             \<and> embed API_KEY svc (req\<lparr>input := Some (InputString s)\<rparr>)
               = ([[prefix_document @ s]], Response 200 (EmbedResponse [e] 1))"
    by blast
next
  assume h: "s \<noteq> [] \<and> authenticateApiKey API_KEY (authorization req) = None \<and>
    model req = Some MODEL_ID \<and>
    \<not> (truthy (dimensions req) \<and> (the (dimensions req) < 1 \<or> the (dimensions req) > MAX_DIMENSIONS)) \<and>
    (encoding_format req = None \<or> encoding_format req = Some ''float'') \<and>
    initialize_result svc = None \<and> infer svc [prefix_document @ s] = Inr [row]"
  then show "embed_v0 svc (req\<lparr>input := Some (InputString s)\<rparr>)
             = ([[prefix_document @ s]], Response 200 (EmbedResponse [row] 1))"
    by (simp add: embed_v0_def falsy_input_def as_texts_def getEmbeddings_v0_def)
qed

theorem single_string_is_one_element_batch_witness:
  "(''hello'' \<noteq> [] \<and>
    authenticateApiKey (Some ''secret'') (authorization demo_request) = None \<and>
    model demo_request = Some MODEL_ID \<and>
    \<not> (truthy (dimensions demo_request)
        \<and> (the (dimensions demo_request) < 1 \<or> the (dimensions demo_request) > MAX_DIMENSIONS)) \<and>
    (encoding_format demo_request = None \<or> encoding_format demo_request = Some ''float'') \<and>
    initialize_result demo_service = None \<and>
    infer demo_service [prefix_document @ ''hello''] = Inr [[25, 1]])
   \<and> v1_embeddings (Some ''secret'') demo_service (demo_request\<lparr>input := Some (InputString ''hello'')\<rparr>)
        = v1_embeddings (Some ''secret'') demo_service (demo_request\<lparr>input := Some (InputArray [''hello''])\<rparr>)
   \<and> embed (Some ''secret'') demo_service (demo_request\<lparr>input := Some (InputString ''hello'')\<rparr>)
        = embed (Some ''secret'') demo_service (demo_request\<lparr>input := Some (InputArray [''hello''])\<rparr>)
   \<and> embed_v0 demo_service (demo_request\<lparr>input := Some (InputString ''hello'')\<rparr>)
        = embed_v0 demo_service (demo_request\<lparr>input := Some (InputArray [''hello''])\<rparr>)
   \<and> (\<exists>e. v1_embeddings (Some ''secret'') demo_service
               (demo_request\<lparr>input := Some (InputString ''hello'')\<rparr>)
               = ([[prefix_document @ ''hello'']],
                  Response 200 (EmbeddingsResponse [EmbeddingData 0 e] MODEL_ID
                                  (countTokens ''hello'') (countTokens ''hello'')))
             \<and> embed (Some ''secret'') demo_service
                 (demo_request\<lparr>input := Some (InputString ''hello'')\<rparr>)
               = ([[prefix_document @ ''hello'']], Response 200 (EmbedResponse [e] 1)))
   \<and> embed_v0 demo_service (demo_request\<lparr>input := Some (InputString ''hello'')\<rparr>)
        = ([[prefix_document @ ''hello'']], Response 200 (EmbedResponse [[25, 1]] 1))"
proof -
  have h: "''hello'' \<noteq> [] \<and>
    authenticateApiKey (Some ''secret'') (authorization demo_request) = None \<and>
    model demo_request = Some MODEL_ID \<and>
    \<not> (truthy (dimensions demo_request)
        \<and> (the (dimensions demo_request) < 1 \<or> the (dimensions demo_request) > MAX_DIMENSIONS)) \<and>
    (encoding_format demo_request = None \<or> encoding_format demo_request = Some ''float'') \<and>
    initialize_result demo_service = None \<and>
    infer demo_service [prefix_document @ ''hello''] = Inr [[25, 1]]"
    by (simp add: demo_request_def authenticateApiKey_def falsy_string_def MODEL_ID_def
          truthy_def demo_service_def prefix_document_def)
  show ?thesis
    using single_string_is_one_element_batch [of "''hello''" "Some ''secret''" demo_service
        demo_request "[25, 1]"] h
    by blast
qed

text \<open>
  Claim C10 as stated fails for the empty string: as a single string it is falsy and the
  request is rejected with status 400 (missing input), while the one-element list holding
  it is embedded.
\<close>

theorem empty_string_is_not_one_element_batch:
  "v1_embeddings (Some ''secret'') demo_service (demo_request\<lparr>input := Some (InputString [])\<rparr>)
     = ([], Response 400 (InvalidRequestError ''Missing required parameter: input''))
   \<and> v1_embeddings (Some ''secret'') demo_service (demo_request\<lparr>input := Some (InputArray [[]])\<rparr>)
     = ([[prefix_document]],
        Response 200 (EmbeddingsResponse [EmbeddingData 0 [20, 1]] ''embeddinggemma-300m'' 0 0))
   \<and> embed_v0 demo_service (demo_request\<lparr>input := Some (InputString [])\<rparr>)
     = ([], Response 400 (ErrorOnly ''Missing required field: input''))
   \<and> embed_v0 demo_service (demo_request\<lparr>input := Some (InputArray [[]])\<rparr>)
     = ([[prefix_document]], Response 200 (EmbedResponse [[20, 1]] 1))"
  by (simp add: v1_embeddings_def embed_v0_def demo_request_def authenticateApiKey_def
        falsy_string_def falsy_input_def MODEL_ID_def truthy_def as_texts_def getEmbeddings_def
        getEmbeddings_v0_def demo_service_def prefix_document_def embeddingData_def
        getTotalTokens_def countTokens_def)

section \<open>Claims about model initialisation\<close>















section \<open>Claims about the listener startup\<close>

lemma https_setup_fails:
  assumes "\<not> key_exists st \<or> \<not> cert_exists st \<or> isl (read_key st) \<or> isl (read_cert st)"
  shows "\<exists>logs e. https_setup st = (logs, Inl e)"
  using assms by (auto simp: https_setup_def isl_def split: sum.splits option.splits)

text \<open>
  Claim C8, as amended. With the model loaded and encrypted mode requested, a missing or
  unreadable key or certificate file makes the full service log warnings and listen in
  plain HTTP on the same port; it does not exit. \<open>src/server.ts\<close> logs an error and
  exits with status 1 in that situation.
\<close>

theorem ssl_fallback:
  "(initialize_outcome st = None \<and> USE_SSL st \<and>
    (\<not> key_exists st \<or> \<not> cert_exists st \<or> isl (read_key st) \<or> isl (read_cert st))
    \<longrightarrow> snd (startServer st) = ListenHTTP (PORT st) \<and>
        (WARN, ''Falling back to HTTP mode...'') \<in> set (fst (startServer st)))
   \<and>
   (initialize_outcome st = None \<and> USE_SSL_v0 st \<and>
    (\<not> key_exists st \<or> \<not> cert_exists st \<or> isl (read_key st) \<or> isl (read_cert st))
    \<longrightarrow> snd (startServer_v0 st) = Exit 1 \<and>
        (\<exists>m. (ERROR, m) \<in> set (fst (startServer_v0 st))))"
proof (rule conjI; rule impI)
  assume h: "initialize_outcome st = None \<and> USE_SSL st \<and>
    (\<not> key_exists st \<or> \<not> cert_exists st \<or> isl (read_key st) \<or> isl (read_cert st))"
  then obtain logs e where "https_setup st = (logs, Inl e)"
    using https_setup_fails by blast
  then show "snd (startServer st) = ListenHTTP (PORT st) \<and>
        (WARN, ''Falling back to HTTP mode...'') \<in> set (fst (startServer st))"
    using h by (simp add: startServer_def)
next
  assume h: "initialize_outcome st = None \<and> USE_SSL_v0 st \<and>
    (\<not> key_exists st \<or> \<not> cert_exists st \<or> isl (read_key st) \<or> isl (read_cert st))"
  then show "snd (startServer_v0 st) = Exit 1 \<and>
        (\<exists>m. (ERROR, m) \<in> set (fst (startServer_v0 st)))"
    by (auto simp: startServer_v0_def isl_def split: sum.splits option.splits)
qed

theorem ssl_fallback_witness:
  "initialize_outcome demo_startup = None \<and> USE_SSL demo_startup \<and> USE_SSL_v0 demo_startup
   \<and> \<not> key_exists demo_startup \<and> \<not> cert_exists demo_startup
   \<and> snd (startServer demo_startup) = ListenHTTP (PORT demo_startup)
   \<and> (WARN, ''Falling back to HTTP mode...'') \<in> set (fst (startServer demo_startup))
   \<and> snd (startServer_v0 demo_startup) = Exit 1
   \<and> (\<exists>m. (ERROR, m) \<in> set (fst (startServer_v0 demo_startup)))"
proof -
  have h: "initialize_outcome demo_startup = None \<and> USE_SSL demo_startup \<and>
    USE_SSL_v0 demo_startup \<and> \<not> key_exists demo_startup \<and> \<not> cert_exists demo_startup"
    by (simp add: demo_startup_def USE_SSL_def USE_SSL_v0_def)
  show ?thesis
    using ssl_fallback [of demo_startup] h by blast
qed

text \<open>
  Claim C8 as stated fails on \<open>src/server.ts\<close>: with \<open>USE_SSL=true\<close> and no certificate
  files the process exits with status 1 instead of listening in plain HTTP.
\<close>

theorem startServer_v0_exits_without_certificates:
  "USE_SSL_v0 demo_startup \<and> \<not> key_exists demo_startup \<and> \<not> cert_exists demo_startup
   \<and> PORT demo_startup = 8082
   \<and> snd (startServer_v0 demo_startup) = Exit 1
   \<and> snd (startServer_v0 demo_startup) \<noteq> ListenHTTP 8082"
  by (simp add: demo_startup_def USE_SSL_v0_def startServer_v0_def)

end
